theory Spec2Isabelle
  imports Main
begin

section \<open>The HTTP server (Express + tRPC)\<close>

subsection \<open>The search procedure of the meme router\<close>

text \<open>
  \<^verbatim>\<open>memeRouter.search\<close>: the input is an object with an optional string field
  \<^verbatim>\<open>query\<close>; the result is an object literal with the fields \<^verbatim>\<open>message\<close>,
  \<^verbatim>\<open>results\<close> and \<^verbatim>\<open>query\<close>. An absent \<^verbatim>\<open>query\<close> is \<open>None\<close>.
\<close>

record search_input =
  query :: "string option"

record search_output =
  message :: string
  results :: "string list"
  query_echo :: "string option"

definition search :: "search_input \<Rightarrow> search_output" where
  "search input =
     \<lparr>message = ''Search is unimplemented in this iteration'',
      results = [],
      query_echo = query input\<rparr>"

subsection \<open>The upload endpoint\<close>

type_synonym bytes = "nat list"

datatype js_error = Error string

text \<open>
  \<^verbatim>\<open>req.file\<close> is what \<^verbatim>\<open>upload.single('image')\<close> with memory storage leaves on the
  request: absent, or a file with its \<^verbatim>\<open>buffer\<close>.
\<close>

record upload_file =
  buffer :: bytes

record request =
  req_file :: "upload_file option"

datatype body =
    ErrorBody string
  | UploadOk bool string

record response =
  status :: nat
  body :: body

text \<open>
  What the handler takes from its surroundings: the constant \<^verbatim>\<open>DATA_DIR\<close>, the value
  the call \<^verbatim>\<open>uuidv4()\<close> returns, and the outcome of the sharp pipeline
  \<^verbatim>\<open>sharp(buffer).toFormat(format, {quality}).toFile(path)\<close>: the encoded data written
  to the path, or the error thrown.
\<close>

record upload_env =
  DATA_DIR :: string
  uuidv4 :: string
  sharp_toFile :: "bytes \<Rightarrow> string \<Rightarrow> nat \<Rightarrow> js_error + bytes"

type_synonym fs = "string \<rightharpoonup> bytes"

definition path_join :: "string \<Rightarrow> string \<Rightarrow> string" where
  "path_join dir name = dir @ ''/'' @ name"

text \<open>
  The handler of \<^verbatim>\<open>app.post('/api/meme/upload', ...)\<close>. \<^verbatim>\<open>res.json\<close> without
  \<^verbatim>\<open>res.status\<close> answers with status 200. A pipeline that throws writes no file in this
  model; the handler's \<^verbatim>\<open>catch\<close> answers 500.
\<close>

definition upload_handler :: "upload_env \<Rightarrow> request \<Rightarrow> fs \<Rightarrow> fs \<times> response" where
  "upload_handler env req files =
     (case req_file req of
        None \<Rightarrow> (files, \<lparr>status = 400, body = ErrorBody ''No file uploaded''\<rparr>)
      | Some f \<Rightarrow>
          (let filename = uuidv4 env @ ''.jpg'';
               outputPath = path_join (DATA_DIR env) filename
           in case sharp_toFile env (buffer f) ''jpeg'' 80 of
                Inr jpg \<Rightarrow>
                  (files(outputPath \<mapsto> jpg), \<lparr>status = 200, body = UploadOk True filename\<rparr>)
              | Inl error \<Rightarrow>
                  (files, \<lparr>status = 500, body = ErrorBody ''Internal server error''\<rparr>)))"

subsection \<open>The caption service\<close>

type_synonym model = nat
type_synonym processor = nat
type_synonym image = bytes

record image_service =
  model :: "model option"
  processor :: "processor option"

text \<open>
  The outcomes of the calls into \<^verbatim>\<open>@huggingface/transformers\<close>: each returns a value or
  throws.
\<close>

record caption_env =
  model_from_pretrained :: "js_error + model"
  processor_from_pretrained :: "js_error + processor"
  RawImage_read :: "string \<Rightarrow> js_error + image"
  processor_caption :: "processor \<Rightarrow> image \<Rightarrow> js_error + string"

datatype log_line =
    Log string
  | LogError string js_error

datatype promise = Resolves | Rejects js_error

text \<open>
  \<^verbatim>\<open>initialize\<close> has no \<^verbatim>\<open>try\<close>: a throwing \<^verbatim>\<open>from_pretrained\<close> rejects its
  promise. The model is stored before the processor is loaded.
\<close>

definition initialize ::
  "caption_env \<Rightarrow> image_service \<Rightarrow> promise \<times> image_service \<times> log_line list" where
  "initialize env svc =
     (if model svc \<noteq> None \<and> processor svc \<noteq> None then (Resolves, svc, [])
      else
        (case model_from_pretrained env of
           Inl e \<Rightarrow> (Rejects e, svc, [Log ''Initializing Moondream2 model...''])
         | Inr m \<Rightarrow>
             (case processor_from_pretrained env of
                Inl e \<Rightarrow>
                  (Rejects e, svc\<lparr>model := Some m\<rparr>, [Log ''Initializing Moondream2 model...''])
              | Inr p \<Rightarrow>
                  (Resolves, svc\<lparr>model := Some m, processor := Some p\<rparr>,
                   [Log ''Initializing Moondream2 model...'',
                    Log ''Moondream2 model initialized.'']))))"

text \<open>
  \<^verbatim>\<open>generateCaption\<close>: the whole body is inside \<^verbatim>\<open>try\<close>, and the \<^verbatim>\<open>catch\<close> logs
  the error and falls off the end of the function. \<^verbatim>\<open>caption_body\<close> is the body after
  the initialisation; a processor that is still absent there makes the method call throw a
  \<^verbatim>\<open>TypeError\<close>.
\<close>

definition caption_body ::
  "caption_env \<Rightarrow> image_service \<Rightarrow> string \<Rightarrow> log_line list \<times> js_error option" where
  "caption_body env svc imagePath =
     (case RawImage_read env imagePath of
        Inl e \<Rightarrow> ([Log (''Generating caption for '' @ imagePath @ ''...'')], Some e)
      | Inr img \<Rightarrow>
          (case processor svc of
             None \<Rightarrow>
               ([Log (''Generating caption for '' @ imagePath @ ''...''),
                 Log ''RawImage loaded:''], Some (Error ''TypeError''))
           | Some p \<Rightarrow>
               (case processor_caption env p img of
                  Inl e \<Rightarrow>
                    ([Log (''Generating caption for '' @ imagePath @ ''...''),
                      Log ''RawImage loaded:''], Some e)
                | Inr inputs \<Rightarrow>
                    ([Log (''Generating caption for '' @ imagePath @ ''...''),
                      Log ''RawImage loaded:'', Log inputs], None))))"

definition generateCaption ::
  "caption_env \<Rightarrow> image_service \<Rightarrow> string \<Rightarrow> promise \<times> image_service \<times> log_line list" where
  "generateCaption env svc imagePath =
     (let (init, svc1, log1) =
            (if model svc = None \<or> processor svc = None then initialize env svc
             else (Resolves, svc, []))
      in case init of
           Rejects e \<Rightarrow> (Resolves, svc1, log1 @ [LogError ''Error generating caption:'' e])
         | Resolves \<Rightarrow>
             (case caption_body env svc1 imagePath of
                (log2, Some e) \<Rightarrow>
                  (Resolves, svc1, log1 @ log2 @ [LogError ''Error generating caption:'' e])
              | (log2, None) \<Rightarrow> (Resolves, svc1, log1 @ log2)))"

section \<open>The file monitor\<close>

text \<open>
  Modelled from the spec: \<^verbatim>\<open>file_monitor.py\<close> (\<^verbatim>\<open>FileMonitor\<close>, \<^verbatim>\<open>ImageFileHandler\<close>)
  and the shared pipeline \<^verbatim>\<open>process_image_file\<close> are not among the sources; only
  the document that describes them is (``File Monitor Feature''). The definitions of this
  section follow the words of the specification, component by component: Admission Filter,
  Debouncer, Dedup Tracker, Bounded Queue, Worker Pool and Pipeline Executor, in the order
  of its data flow.
\<close>

type_synonym path = string

subsection \<open>Pipeline executor and worker\<close>

datatype pipeline_step =
  Validate | Normalize | Caption | DeriveFilename | Embed | IndexWrite | Rename

text \<open>
  Modelled from the spec: the pipeline is not among the sources. These are the seven steps
  of the Pipeline Executor in their order.
\<close>

definition PIPELINE_STEPS :: "pipeline_step list" where
  "PIPELINE_STEPS = [Validate, Normalize, Caption, DeriveFilename, Embed, IndexWrite, Rename]"

type_synonym reason = string
type_synonym vector = "int list"

text \<open>
  Modelled from the spec: the Index is an external collaborator. An entry is the file name,
  the caption and the embedding; it also keeps the hash of the file's content, which the
  lookup by content compares.
\<close>

record index_entry =
  entry_filename :: string
  entry_caption :: string
  entry_vector :: vector
  entry_hash :: nat

text \<open>The files of the watched directory and the entries of the external index.\<close>

record world =
  disk :: "path \<rightharpoonup> bytes"
  index_entries :: "index_entry list"

text \<open>
  Modelled from the spec: the collaborators and the fallible parts of the steps, each with
  the result it gives or the reason of its failure: decoding the file, re-encoding as JPEG,
  the Captioner, the derivation of the file name (with the token that is appended when the
  name is taken), the Embedder, the Index (\<open>None\<close>: the entry is stored) and the rename of
  the file system (\<open>None\<close>: renamed); and the hash of a file's content.
\<close>

record collaborators =
  decode_image :: "bytes \<Rightarrow> reason + image"
  to_jpeg :: "image \<Rightarrow> reason + bytes"
  caption :: "bytes \<Rightarrow> reason + string"
  derive_name :: "string \<Rightarrow> reason + string"
  token :: string
  embed :: "bytes \<Rightarrow> string \<Rightarrow> reason + vector"
  upsert :: "index_entry \<Rightarrow> reason option"
  fs_rename :: "path \<Rightarrow> path \<Rightarrow> reason option"
  content_hash :: "bytes \<Rightarrow> nat"

text \<open>
  Modelled from the spec: \<open>exists(path|contentHash)\<close> of the Index. A file has an entry
  when an entry bears its path as file name or the hash of its content.
\<close>

definition index_exists :: "collaborators \<Rightarrow> world \<Rightarrow> path \<Rightarrow> bool" where
  "index_exists c w p =
     list_ex
       (\<lambda>e. entry_filename e = p \<or>
            (case disk w p of None \<Rightarrow> False | Some b \<Rightarrow> entry_hash e = content_hash c b))
       (index_entries w)"

datatype task_outcome = Completed string | Failed pipeline_step reason

text \<open>What the steps of one task hand to each other.\<close>

record task_data =
  td_raw :: bytes
  td_image :: image
  td_jpeg :: bytes
  td_caption :: string
  td_name :: string
  td_vector :: vector

definition no_data :: task_data where
  "no_data =
     \<lparr>td_raw = [], td_image = [], td_jpeg = [], td_caption = [], td_name = [], td_vector = []\<rparr>"

text \<open>
  Modelled from the spec: the derived file name is collision-safe. If it exists on disk,
  it is suffixed with a distinguishing token.
\<close>

definition final_name :: "collaborators \<Rightarrow> world \<Rightarrow> string \<Rightarrow> string" where
  "final_name c w n = (if disk w n = None then n else n @ token c)"

text \<open>
  Modelled from the spec: one step of the pipeline for the file at path \<open>p\<close>. A step
  either fails with a reason or hands on the data and the world it leaves. Only step 6
  writes to the index and only step 7 touches the disk.
\<close>

fun perform ::
  "collaborators \<Rightarrow> path \<Rightarrow> pipeline_step \<Rightarrow> task_data \<times> world \<Rightarrow> reason + task_data \<times> world"
  where
  "perform c p Validate (d, w) =
     (case disk w p of
        None \<Rightarrow> Inl ''cannot open file''
      | Some b \<Rightarrow>
          (case decode_image c b of
             Inl r \<Rightarrow> Inl r
           | Inr i \<Rightarrow> Inr (d\<lparr>td_raw := b, td_image := i\<rparr>, w)))"
| "perform c p Normalize (d, w) =
     (case to_jpeg c (td_image d) of
        Inl r \<Rightarrow> Inl r
      | Inr j \<Rightarrow> Inr (d\<lparr>td_jpeg := j\<rparr>, w))"
| "perform c p Caption (d, w) =
     (case caption c (td_jpeg d) of
        Inl r \<Rightarrow> Inl r
      | Inr t \<Rightarrow> Inr (d\<lparr>td_caption := t\<rparr>, w))"
| "perform c p DeriveFilename (d, w) =
     (case derive_name c (td_caption d) of
        Inl r \<Rightarrow> Inl r
      | Inr n \<Rightarrow> Inr (d\<lparr>td_name := final_name c w n\<rparr>, w))"
| "perform c p Embed (d, w) =
     (case embed c (td_jpeg d) (td_caption d) of
        Inl r \<Rightarrow> Inl r
      | Inr v \<Rightarrow> Inr (d\<lparr>td_vector := v\<rparr>, w))"
| "perform c p IndexWrite (d, w) =
     (let entry = \<lparr>entry_filename = td_name d, entry_caption = td_caption d,
                   entry_vector = td_vector d, entry_hash = content_hash c (td_raw d)\<rparr>
      in case upsert c entry of
           Some r \<Rightarrow> Inl r
         | None \<Rightarrow> Inr (d, w\<lparr>index_entries := index_entries w @ [entry]\<rparr>))"
| "perform c p Rename (d, w) =
     (case fs_rename c p (td_name d) of
        Some r \<Rightarrow> Inl r
      | None \<Rightarrow> Inr (d, w\<lparr>disk := (disk w)(p := None, td_name d \<mapsto> td_raw d)\<rparr>))"

text \<open>
  Modelled from the spec: the steps are performed one after the other; the first failure
  ends the task as Failed and no later step is performed. The result is the outcome, the
  steps that were performed, in order, and the world they leave.
\<close>

fun run_steps ::
  "collaborators \<Rightarrow> path \<Rightarrow> pipeline_step list \<Rightarrow> task_data \<times> world \<Rightarrow>
   task_outcome \<times> pipeline_step list \<times> world" where
  "run_steps c p [] (d, w) = (Completed (td_name d), [], w)"
| "run_steps c p (s # ss) (d, w) =
     (case perform c p s (d, w) of
        Inl r \<Rightarrow> (Failed s r, [s], w)
      | Inr dw \<Rightarrow>
          (case run_steps c p ss dw of (out, trace, w') \<Rightarrow> (out, s # trace, w')))"

definition run_pipeline ::
  "collaborators \<Rightarrow> path \<Rightarrow> world \<Rightarrow> task_outcome \<times> pipeline_step list \<times> world" where
  "run_pipeline c p w = run_steps c p PIPELINE_STEPS (no_data, w)"

text \<open>
  Modelled from the spec: the loop of one worker. It takes one task after the other and
  runs the pipeline on each; the outcome of each task is recorded and the loop goes on.
\<close>

fun worker_loop :: "collaborators \<Rightarrow> path list \<Rightarrow> world \<Rightarrow> task_outcome list \<times> world" where
  "worker_loop c [] w = ([], w)"
| "worker_loop c (p # ps) w =
     (case run_pipeline c p w of
        (out, trace, w1) \<Rightarrow>
          (case worker_loop c ps w1 of (outs, w2) \<Rightarrow> (out # outs, w2)))"

subsection \<open>Admission filter\<close>

text \<open>
  Modelled from the spec: the extension check of the handler is not among the sources. A
  path is accepted when, in lower case, it ends with one of the six extensions; the file is
  not opened.
\<close>

definition lower_char :: "char \<Rightarrow> char" where
  "lower_char c =
     (let n = (of_char c :: nat) in if 65 \<le> n \<and> n \<le> 90 then char_of (n + 32) else c)"

definition SUPPORTED_EXTENSIONS :: "string list" where
  "SUPPORTED_EXTENSIONS = [''.jpg'', ''.jpeg'', ''.png'', ''.gif'', ''.bmp'', ''.webp'']"

definition ends_with :: "string \<Rightarrow> string \<Rightarrow> bool" where
  "ends_with s suf = (length suf \<le> length s \<and> drop (length s - length suf) s = suf)"

definition is_image_file :: "path \<Rightarrow> bool" where
  "is_image_file p = list_ex (ends_with (map lower_char p)) SUPPORTED_EXTENSIONS"

subsection \<open>State of the monitor\<close>

text \<open>
  Modelled from the spec: the counters of QueueMetrics and the state of the components are
  not among the sources.
  \<open>debouncing\<close> are the paths whose debounce timer is armed; \<open>queued\<close> are the tasks in
  the Bounded Queue, not yet picked up by a worker, oldest first; \<open>running\<close> are the
  tasks the workers hold (the occupancy of the Worker Pool); \<open>outside\<close> is the watched
  directory with the external index.
\<close>

record queue_metrics =
  admitted :: nat
  completed :: nat
  failed :: nat
  dropped :: nat
  skipped :: nat

record monitor =
  max_queue_size :: nat
  max_worker_threads :: nat
  debouncing :: "path list"
  queued :: "path list"
  running :: "path list"
  outside :: world
  metrics :: queue_metrics

definition init :: "nat \<Rightarrow> nat \<Rightarrow> world \<Rightarrow> monitor" where
  "init C W w =
     \<lparr>max_queue_size = C, max_worker_threads = W, debouncing = [], queued = [],
      running = [], outside = w,
      metrics = \<lparr>admitted = 0, completed = 0, failed = 0, dropped = 0, skipped = 0\<rparr>\<rparr>"

text \<open>
  Modelled from the spec: the start of the monitor is not among the sources. The
  configuration keys are optional, with the defaults 100 and 4.
\<close>

record config =
  MAX_QUEUE_SIZE :: "nat option"
  MAX_WORKER_THREADS :: "nat option"

definition start :: "config \<Rightarrow> world \<Rightarrow> monitor" where
  "start cfg w =
     init (case MAX_QUEUE_SIZE cfg of None \<Rightarrow> 100 | Some C \<Rightarrow> C)
          (case MAX_WORKER_THREADS cfg of None \<Rightarrow> 4 | Some W \<Rightarrow> W) w"

text \<open>
  Modelled from the spec: the paths owned by an active task, which is in the queue or with
  a worker.
\<close>

definition in_flight :: "monitor \<Rightarrow> path list" where
  "in_flight m = queued m @ running m"

text \<open>
  Modelled from the spec: the depth of the Bounded Queue reflects only the items not yet
  picked up by a worker.
\<close>

definition queue_depth :: "monitor \<Rightarrow> nat" where
  "queue_depth m = length (queued m)"

subsection \<open>Bounded queue\<close>

datatype reject_reason = QueueFull

datatype enqueue_result = Accepted | Rejected reject_reason

text \<open>
  Modelled from the spec: \<open>enqueue\<close> and \<open>dequeue\<close> of the Bounded Queue are not among
  the sources. \<open>enqueue\<close> returns at once: at capacity the task is rejected and the drop
  counted, otherwise the task goes to the end of the queue and the admission is counted.
\<close>

definition enqueue :: "path \<Rightarrow> monitor \<Rightarrow> enqueue_result \<times> monitor" where
  "enqueue p m =
     (if queue_depth m \<ge> max_queue_size m
      then (Rejected QueueFull,
            m\<lparr>metrics := (metrics m)\<lparr>dropped := dropped (metrics m) + 1\<rparr>\<rparr>)
      else (Accepted,
            m\<lparr>queued := queued m @ [p],
              metrics := (metrics m)\<lparr>admitted := admitted (metrics m) + 1\<rparr>\<rparr>))"

text \<open>
  \<open>dequeue\<close> hands the oldest waiting task to an idle worker. With no task waiting, or no
  idle worker, nothing is handed out (the worker stays suspended).
\<close>

definition dequeue :: "monitor \<Rightarrow> path option \<times> monitor" where
  "dequeue m =
     (case queued m of
        [] \<Rightarrow> (None, m)
      | t # ts \<Rightarrow>
          if length (running m) < max_worker_threads m
          then (Some t, m\<lparr>queued := ts, running := running m @ [t]\<rparr>)
          else (None, m))"

subsection \<open>Event handling, dedup tracker and workers\<close>

text \<open>
  Modelled from the spec: the handling of a creation event is not among the sources. The
  event passes the Admission Filter and arms the debounce timer of the path, or re-arms it.
  A modification event only re-arms the timer of a path that has one; armed or re-armed,
  the path is debouncing as before.
\<close>

definition on_created :: "path \<Rightarrow> monitor \<Rightarrow> monitor" where
  "on_created p m =
     (if \<not> is_image_file p then m
      else if p \<in> set (debouncing m) then m
      else m\<lparr>debouncing := debouncing m @ [p]\<rparr>)"

definition on_modified :: "path \<Rightarrow> monitor \<Rightarrow> monitor" where
  "on_modified p m = m"

datatype admit_result = Admitted | AlreadyInFlight | AlreadyIndexed

text \<open>
  Modelled from the spec: \<open>tryAdmit\<close> of the Dedup Tracker is not among the sources. It
  checks, in order: (a) a path owned by an active task: the signal is a no-op; (b) a file
  with an index entry for its path or content: the skip is counted. Otherwise the file is
  admitted and its task goes on to the Bounded Queue.
\<close>

definition tryAdmit :: "collaborators \<Rightarrow> path \<Rightarrow> monitor \<Rightarrow> admit_result \<times> monitor" where
  "tryAdmit c p m =
     (if p \<in> set (in_flight m) then (AlreadyInFlight, m)
      else if index_exists c (outside m) p
      then (AlreadyIndexed, m\<lparr>metrics := (metrics m)\<lparr>skipped := skipped (metrics m) + 1\<rparr>\<rparr>)
      else (Admitted, m))"

text \<open>
  Modelled from the spec: the stable signal of a path. Only an armed timer fires; it is
  gone then, and the path goes through the Dedup Tracker and, if admitted, to the
  Bounded Queue.
\<close>

definition on_stable :: "collaborators \<Rightarrow> path \<Rightarrow> monitor \<Rightarrow> monitor" where
  "on_stable c p m =
     (if p \<notin> set (debouncing m) then m
      else
        (case tryAdmit c p (m\<lparr>debouncing := removeAll p (debouncing m)\<rparr>) of
           (Admitted, m') \<Rightarrow> snd (enqueue p m')
         | (AlreadyInFlight, m') \<Rightarrow> m'
         | (AlreadyIndexed, m') \<Rightarrow> m'))"

text \<open>
  Modelled from the spec: the end of a task that a worker holds. The worker has run the
  pipeline on the file and records the task as Completed or Failed.
\<close>

definition finish :: "collaborators \<Rightarrow> path \<Rightarrow> monitor \<Rightarrow> monitor" where
  "finish c p m =
     (if p \<in> set (running m)
      then
        (case run_pipeline c p (outside m) of
           (out, trace, w') \<Rightarrow>
             m\<lparr>running := removeAll p (running m),
               outside := w',
               metrics :=
                 (case out of
                    Completed n \<Rightarrow> (metrics m)\<lparr>completed := completed (metrics m) + 1\<rparr>
                  | Failed s r \<Rightarrow> (metrics m)\<lparr>failed := failed (metrics m) + 1\<rparr>)\<rparr>)
      else m)"

text \<open>
  The events of the monitor: a file is created or modified, a debounce timer fires, a
  worker takes a task, a worker ends its task.
\<close>

datatype event =
    Created path
  | Modified path
  | Stable path
  | Dequeue
  | Finished path

fun step :: "collaborators \<Rightarrow> event \<Rightarrow> monitor \<Rightarrow> monitor" where
  "step c (Created p) m = on_created p m"
| "step c (Modified p) m = on_modified p m"
| "step c (Stable p) m = on_stable c p m"
| "step c Dequeue m = snd (dequeue m)"
| "step c (Finished p) m = finish c p m"

fun run :: "collaborators \<Rightarrow> monitor \<Rightarrow> event list \<Rightarrow> monitor" where
  "run c m [] = m"
| "run c m (e # es) = run c (step c e m) es"

fun created_paths :: "event list \<Rightarrow> path list" where
  "created_paths [] = []"
| "created_paths (Created p # es) = p # created_paths es"
| "created_paths (e # es) = created_paths es"

text \<open>
  The runs in which every creation event is for a valid image file that is not tracked at
  that moment: its path is neither debouncing nor in flight.
\<close>

fun fresh_creations :: "collaborators \<Rightarrow> monitor \<Rightarrow> event list \<Rightarrow> bool" where
  "fresh_creations c m [] = True"
| "fresh_creations c m (Created p # es) =
     (is_image_file p \<and> p \<notin> set (debouncing m) \<and> p \<notin> set (in_flight m) \<and>
      fresh_creations c (step c (Created p) m) es)"
| "fresh_creations c m (e # es) = fresh_creations c (step c e m) es"

subsection \<open>Well-formed monitor states\<close>

text \<open>
  What every reachable state satisfies: no path has two timers or two active tasks, the
  queue holds at most its capacity and the workers hold at most one task each.
\<close>

definition wf :: "monitor \<Rightarrow> bool" where
  "wf m =
     (distinct (debouncing m) \<and> distinct (in_flight m) \<and>
      queue_depth m \<le> max_queue_size m \<and> length (running m) \<le> max_worker_threads m)"

subsection \<open>Debouncer\<close>

text \<open>
  Modelled from the spec: the Debouncer is not among the sources; the document gives the
  delay of one second. Time is counted in milliseconds. A timer is a path with the time at which it fires;
  a path has at most one timer. \<open>onEvent\<close> arms the timer of the path, or re-arms it if
  it is armed, to fire one interval after the event.
\<close>

type_synonym time = nat

record debouncer =
  interval :: time
  timers :: "(path \<times> time) list"

definition DEBOUNCE_INTERVAL :: time where
  "DEBOUNCE_INTERVAL = 1000"

definition onEvent :: "time \<Rightarrow> path \<Rightarrow> debouncer \<Rightarrow> debouncer" where
  "onEvent now p d =
     d\<lparr>timers := (p, now + interval d) # filter (\<lambda>(q, t). q \<noteq> p) (timers d)\<rparr>"

text \<open>
  The timers whose time has come fire: each emits the stable signal of its path, stamped
  with the time it was set to, and is gone.
\<close>

definition fire_due :: "time \<Rightarrow> debouncer \<Rightarrow> (time \<times> path) list \<times> debouncer" where
  "fire_due now d =
     (map (\<lambda>(q, t). (t, q)) (filter (\<lambda>(q, t). t \<le> now) (timers d)),
      d\<lparr>timers := filter (\<lambda>(q, t). \<not> t \<le> now) (timers d)\<rparr>)"

text \<open>
  Events are delivered in the order of their times; before an event is handled, the timers
  that were due by then have fired.
\<close>

fun deliver :: "debouncer \<Rightarrow> (time \<times> path) list \<Rightarrow> (time \<times> path) list \<times> debouncer" where
  "deliver d [] = ([], d)"
| "deliver d ((now, p) # evs) =
     (let (s1, d1) = fire_due now d;
          (s2, d2) = deliver (onEvent now p d1) evs
      in (s1 @ s2, d2))"

text \<open>All stable signals emitted up to the time \<open>tend\<close>, from a debouncer with no timer.\<close>

definition stable_signals :: "time \<Rightarrow> (time \<times> path) list \<Rightarrow> time \<Rightarrow> (time \<times> path) list" where
  "stable_signals T evs tend =
     (let (s1, d1) = deliver \<lparr>interval = T, timers = []\<rparr> evs;
          (s2, d2) = fire_due tend d1
      in s1 @ s2)"

text \<open>
  The view of one path: the times of its stable signals, from the time its timer is set to
  (if armed) and the times of its events.
\<close>

fun stable_times :: "time \<Rightarrow> time option \<Rightarrow> time list \<Rightarrow> time \<Rightarrow> time list" where
  "stable_times T a [] tend =
     (case a of None \<Rightarrow> [] | Some dl \<Rightarrow> if dl \<le> tend then [dl] else [])"
| "stable_times T a (t # ts) tend =
     (case a of None \<Rightarrow> [] | Some dl \<Rightarrow> if dl \<le> t then [dl] else []) @
     stable_times T (Some (t + T)) ts tend"

section \<open>Properties of the HTTP server\<close>

text \<open>
  C10. For every query string the search procedure returns an empty result list with the
  message ``Search is unimplemented in this iteration'' and the query unchanged. The
  procedure is a total function of its input alone: it has no failing branch and takes no
  index.
\<close>

theorem search_unimplemented:
  "search \<lparr>query = Some q\<rparr> =
     \<lparr>message = ''Search is unimplemented in this iteration'', results = [],
      query_echo = Some q\<rparr>"
  by (simp add: search_def)

text \<open>
  C9. A POST to \<^verbatim>\<open>/api/meme/upload\<close> with no file attached is answered with status 400
  and the body \<^verbatim>\<open>{error: 'No file uploaded'}\<close>, and the disk is left as it was. With a
  file, the buffer goes through sharp with format \<^verbatim>\<open>jpeg\<close> and quality 80; when that
  succeeds the result is stored in the data directory under the name \<^verbatim>\<open>uuidv4() + '.jpg'\<close>
  and the answer is \<^verbatim>\<open>{success: true, filename}\<close>; when it throws, the answer has status
  500 and the handler returns all the same.
\<close>

theorem upload_handler_contract:
  "(req_file req = None \<longrightarrow>
      upload_handler env req files =
        (files, \<lparr>status = 400, body = ErrorBody ''No file uploaded''\<rparr>)) \<and>
   (\<forall>f jpg. req_file req = Some f \<and> sharp_toFile env (buffer f) ''jpeg'' 80 = Inr jpg \<longrightarrow>
      upload_handler env req files =
        (files(path_join (DATA_DIR env) (uuidv4 env @ ''.jpg'') \<mapsto> jpg),
         \<lparr>status = 200, body = UploadOk True (uuidv4 env @ ''.jpg'')\<rparr>)) \<and>
   (\<forall>f e. req_file req = Some f \<and> sharp_toFile env (buffer f) ''jpeg'' 80 = Inl e \<longrightarrow>
      upload_handler env req files =
        (files, \<lparr>status = 500, body = ErrorBody ''Internal server error''\<rparr>))"
  by (simp add: upload_handler_def Let_def)

theorem upload_handler_contract_witness:
  "upload_handler
     \<lparr>DATA_DIR = ''/srv/data'', uuidv4 = ''9b2f'', sharp_toFile = (\<lambda>b fmt q. Inr (q # b))\<rparr>
     \<lparr>req_file = None\<rparr> Map.empty =
     (Map.empty, \<lparr>status = 400, body = ErrorBody ''No file uploaded''\<rparr>) \<and>
   upload_handler
     \<lparr>DATA_DIR = ''/srv/data'', uuidv4 = ''9b2f'', sharp_toFile = (\<lambda>b fmt q. Inr (q # b))\<rparr>
     \<lparr>req_file = Some \<lparr>buffer = [1, 2]\<rparr>\<rparr> Map.empty =
     ([''/srv/data/9b2f.jpg'' \<mapsto> [80, 1, 2]],
      \<lparr>status = 200, body = UploadOk True ''9b2f.jpg''\<rparr>) \<and>
   upload_handler
     \<lparr>DATA_DIR = ''/srv/data'', uuidv4 = ''9b2f'',
      sharp_toFile = (\<lambda>b fmt q. Inl (Error ''unsupported image format''))\<rparr>
     \<lparr>req_file = Some \<lparr>buffer = [1, 2]\<rparr>\<rparr> Map.empty =
     (Map.empty, \<lparr>status = 500, body = ErrorBody ''Internal server error''\<rparr>)"
proof -
  let ?ok = "\<lparr>DATA_DIR = ''/srv/data'', uuidv4 = ''9b2f'',
              sharp_toFile = (\<lambda>b fmt q. Inr (q # b))\<rparr>"
  let ?bad = "\<lparr>DATA_DIR = ''/srv/data'', uuidv4 = ''9b2f'',
               sharp_toFile = (\<lambda>b fmt q. Inl (Error ''unsupported image format''))\<rparr>"
  let ?req = "\<lparr>req_file = Some \<lparr>buffer = [1, 2]\<rparr>\<rparr>"
  have a: "upload_handler ?ok \<lparr>req_file = None\<rparr> Map.empty =
             (Map.empty, \<lparr>status = 400, body = ErrorBody ''No file uploaded''\<rparr>)"
    using upload_handler_contract [of "\<lparr>req_file = None\<rparr>" ?ok Map.empty] by simp
  have b: "upload_handler ?ok ?req Map.empty =
             ([''/srv/data/9b2f.jpg'' \<mapsto> [80, 1, 2]],
              \<lparr>status = 200, body = UploadOk True ''9b2f.jpg''\<rparr>)"
    using upload_handler_contract [of ?req ?ok Map.empty] by (simp add: path_join_def)
  have c: "upload_handler ?bad ?req Map.empty =
             (Map.empty, \<lparr>status = 500, body = ErrorBody ''Internal server error''\<rparr>)"
    using upload_handler_contract [of ?req ?bad Map.empty] by simp
  from a b c show ?thesis by (intro conjI)
qed

section \<open>Properties of the file monitor\<close>

subsection \<open>Pipeline executor\<close>

lemma run_steps_trace:
  assumes "run_steps c p ss dw = (out, tr, w')"
  shows "(\<exists>n. n \<le> length ss \<and> tr = take n ss) \<and>
         (case out of Completed n \<Rightarrow> tr = ss | Failed s r \<Rightarrow> tr \<noteq> [] \<and> last tr = s)"
  using assms
proof (induction ss arbitrary: dw tr out w')
  case Nil
  then show ?case by (cases dw) auto
next
  case (Cons s ss)
  obtain d w where dw: "dw = (d, w)" by (cases dw)
  show ?case
  proof (cases "perform c p s (d, w)")
    case (Inl r)
    with Cons.prems dw have "out = Failed s r" and "tr = [s]" by simp_all
    then have "Suc 0 \<le> length (s # ss) \<and> tr = take (Suc 0) (s # ss)" by simp
    then have "\<exists>n. n \<le> length (s # ss) \<and> tr = take n (s # ss)" by blast
    with \<open>out = Failed s r\<close> \<open>tr = [s]\<close> show ?thesis by simp
  next
    case (Inr dw1)
    obtain out1 tr1 w1 where r: "run_steps c p ss dw1 = (out1, tr1, w1)"
      by (cases "run_steps c p ss dw1")
    with Cons.prems dw Inr have o: "out = out1" and t: "tr = s # tr1" by simp_all
    from Cons.IH [OF r] obtain n where n: "n \<le> length ss" "tr1 = take n ss"
      and c1: "case out1 of Completed n \<Rightarrow> tr1 = ss | Failed s r \<Rightarrow> tr1 \<noteq> [] \<and> last tr1 = s"
      by blast
    from n t have "Suc n \<le> length (s # ss) \<and> tr = take (Suc n) (s # ss)" by simp
    then have a: "\<exists>n. n \<le> length (s # ss) \<and> tr = take n (s # ss)" by blast
    from c1 o t have "case out of Completed n \<Rightarrow> tr = s # ss | Failed s r \<Rightarrow> tr \<noteq> [] \<and> last tr = s"
      by (cases out1) auto
    with a show ?thesis by simp
  qed
qed


lemma pipeline_prefix:
  assumes "run_pipeline c p w = (out, trace, w')"
  shows "\<exists>n. 0 < n \<and> n \<le> 7 \<and> trace = take n PIPELINE_STEPS"
proof -
  from assms have r: "run_steps c p PIPELINE_STEPS (no_data, w) = (out, trace, w')"
    by (simp add: run_pipeline_def)
  from run_steps_trace [OF r] obtain n where n: "n \<le> length PIPELINE_STEPS"
    "trace = take n PIPELINE_STEPS"
    and o: "case out of Completed n \<Rightarrow> trace = PIPELINE_STEPS
            | Failed s r \<Rightarrow> trace \<noteq> [] \<and> last trace = s"
    by blast
  from o have "trace \<noteq> []" by (cases out) (auto simp: PIPELINE_STEPS_def)
  with n have "0 < n" by (cases n) auto
  with n show ?thesis by (auto simp: PIPELINE_STEPS_def)
qed

lemma pipeline_failed_last:
  assumes "run_pipeline c p w = (Failed s r, trace, w')"
  shows "last trace = s"
proof -
  from assms have r: "run_steps c p PIPELINE_STEPS (no_data, w) = (Failed s r, trace, w')"
    by (simp add: run_pipeline_def)
  from run_steps_trace [OF r] show ?thesis by simp
qed


lemma pipeline_missing:
  "disk w p = None \<Longrightarrow>
   run_pipeline c p w = (Failed Validate ''cannot open file'', [Validate], w)"
  by (simp add: run_pipeline_def PIPELINE_STEPS_def)

lemma pipeline_fail_validate:
  "disk w p = Some b \<Longrightarrow> decode_image c b = Inl r \<Longrightarrow>
   run_pipeline c p w = (Failed Validate r, [Validate], w)"
  by (simp add: run_pipeline_def PIPELINE_STEPS_def)

lemma pipeline_fail_normalize:
  "disk w p = Some b \<Longrightarrow> decode_image c b = Inr i \<Longrightarrow> to_jpeg c i = Inl r \<Longrightarrow>
   run_pipeline c p w = (Failed Normalize r, [Validate, Normalize], w)"
  by (simp add: run_pipeline_def PIPELINE_STEPS_def)

lemma pipeline_fail_caption:
  "disk w p = Some b \<Longrightarrow> decode_image c b = Inr i \<Longrightarrow> to_jpeg c i = Inr j \<Longrightarrow>
   caption c j = Inl r \<Longrightarrow>
   run_pipeline c p w = (Failed Caption r, [Validate, Normalize, Caption], w)"
  by (simp add: run_pipeline_def PIPELINE_STEPS_def)

lemma pipeline_fail_derive:
  "disk w p = Some b \<Longrightarrow> decode_image c b = Inr i \<Longrightarrow> to_jpeg c i = Inr j \<Longrightarrow>
   caption c j = Inr t \<Longrightarrow> derive_name c t = Inl r \<Longrightarrow>
   run_pipeline c p w =
     (Failed DeriveFilename r, [Validate, Normalize, Caption, DeriveFilename], w)"
  by (simp add: run_pipeline_def PIPELINE_STEPS_def)

lemma pipeline_fail_embed:
  "disk w p = Some b \<Longrightarrow> decode_image c b = Inr i \<Longrightarrow> to_jpeg c i = Inr j \<Longrightarrow>
   caption c j = Inr t \<Longrightarrow> derive_name c t = Inr n \<Longrightarrow> embed c j t = Inl r \<Longrightarrow>
   run_pipeline c p w =
     (Failed Embed r, [Validate, Normalize, Caption, DeriveFilename, Embed], w)"
  by (simp add: run_pipeline_def PIPELINE_STEPS_def)

lemma pipeline_fail_index:
  "disk w p = Some b \<Longrightarrow> decode_image c b = Inr i \<Longrightarrow> to_jpeg c i = Inr j \<Longrightarrow>
   caption c j = Inr t \<Longrightarrow> derive_name c t = Inr n \<Longrightarrow> embed c j t = Inr v \<Longrightarrow>
   upsert c \<lparr>entry_filename = final_name c w n, entry_caption = t, entry_vector = v,
             entry_hash = content_hash c b\<rparr> = Some r \<Longrightarrow>
   run_pipeline c p w =
     (Failed IndexWrite r, [Validate, Normalize, Caption, DeriveFilename, Embed, IndexWrite], w)"
  by (simp add: run_pipeline_def PIPELINE_STEPS_def no_data_def)

lemma pipeline_fail_rename:
  "disk w p = Some b \<Longrightarrow> decode_image c b = Inr i \<Longrightarrow> to_jpeg c i = Inr j \<Longrightarrow>
   caption c j = Inr t \<Longrightarrow> derive_name c t = Inr n \<Longrightarrow> embed c j t = Inr v \<Longrightarrow>
   upsert c \<lparr>entry_filename = final_name c w n, entry_caption = t, entry_vector = v,
             entry_hash = content_hash c b\<rparr> = None \<Longrightarrow>
   fs_rename c p (final_name c w n) = Some r \<Longrightarrow>
   run_pipeline c p w =
     (Failed Rename r, PIPELINE_STEPS,
      w\<lparr>index_entries := index_entries w @
         [\<lparr>entry_filename = final_name c w n, entry_caption = t, entry_vector = v,
           entry_hash = content_hash c b\<rparr>]\<rparr>)"
  by (simp add: run_pipeline_def PIPELINE_STEPS_def no_data_def)

lemma pipeline_completed:
  "disk w p = Some b \<Longrightarrow> decode_image c b = Inr i \<Longrightarrow> to_jpeg c i = Inr j \<Longrightarrow>
   caption c j = Inr t \<Longrightarrow> derive_name c t = Inr n \<Longrightarrow> embed c j t = Inr v \<Longrightarrow>
   upsert c \<lparr>entry_filename = final_name c w n, entry_caption = t, entry_vector = v,
             entry_hash = content_hash c b\<rparr> = None \<Longrightarrow>
   fs_rename c p (final_name c w n) = None \<Longrightarrow>
   run_pipeline c p w =
     (Completed (final_name c w n), PIPELINE_STEPS,
      w\<lparr>index_entries := index_entries w @
         [\<lparr>entry_filename = final_name c w n, entry_caption = t, entry_vector = v,
           entry_hash = content_hash c b\<rparr>],
        disk := (disk w)(p := None, final_name c w n \<mapsto> b)\<rparr>)"
  by (simp add: run_pipeline_def PIPELINE_STEPS_def no_data_def)

text \<open>
  The three ways a task can end: nothing has changed and the rename was not started; the
  entry is stored and the rename failed; the entry is stored and the file renamed.
\<close>

lemma pipeline_cases:
  assumes "run_pipeline c p w = (out, trace, w')"
  shows "(w' = w \<and> Rename \<notin> set trace \<and> (\<exists>s r. out = Failed s r)) \<or>
         (\<exists>e r. w' = w\<lparr>index_entries := index_entries w @ [e]\<rparr> \<and> upsert c e = None \<and>
              Rename \<in> set trace \<and> out = Failed Rename r) \<or>
         (\<exists>e b. w' = w\<lparr>index_entries := index_entries w @ [e],
                       disk := (disk w)(p := None, entry_filename e \<mapsto> b)\<rparr> \<and>
              disk w p = Some b \<and> upsert c e = None \<and> Rename \<in> set trace \<and>
              out = Completed (entry_filename e))"
proof (cases "disk w p")
  case None
  from pipeline_missing [OF None, of c] assms show ?thesis by auto
next
  case (Some b)
  show ?thesis
  proof (cases "decode_image c b")
    case (Inl r)
    from pipeline_fail_validate [OF Some Inl] assms show ?thesis by auto
  next
    case i: (Inr i)
    show ?thesis
    proof (cases "to_jpeg c i")
      case (Inl r)
      from pipeline_fail_normalize [OF Some i Inl] assms show ?thesis by auto
    next
      case j: (Inr j)
      show ?thesis
      proof (cases "caption c j")
        case (Inl r)
        from pipeline_fail_caption [OF Some i j Inl] assms show ?thesis by auto
      next
        case t: (Inr t)
        show ?thesis
        proof (cases "derive_name c t")
          case (Inl r)
          from pipeline_fail_derive [OF Some i j t Inl] assms show ?thesis by auto
        next
          case n: (Inr n)
          show ?thesis
          proof (cases "embed c j t")
            case (Inl r)
            from pipeline_fail_embed [OF Some i j t n Inl] assms show ?thesis by auto
          next
            case v: (Inr v)
            let ?e = "\<lparr>entry_filename = final_name c w n, entry_caption = t, entry_vector = v,
                       entry_hash = content_hash c b\<rparr>"
            show ?thesis
            proof (cases "upsert c ?e")
              case u: (Some r)
              from pipeline_fail_index [OF Some i j t n v u] assms show ?thesis by auto
            next
              case u: None
              show ?thesis
              proof (cases "fs_rename c p (final_name c w n)")
                case (Some r)
                from pipeline_fail_rename [OF \<open>disk w p = Some b\<close> i j t n v u Some] assms
                have "w' = w\<lparr>index_entries := index_entries w @ [?e]\<rparr> \<and> upsert c ?e = None \<and>
                      Rename \<in> set trace \<and> out = Failed Rename r"
                  using u by (auto simp: PIPELINE_STEPS_def)
                then show ?thesis by blast
              next
                case None
                from pipeline_completed [OF \<open>disk w p = Some b\<close> i j t n v u None] assms
                have "w' = w\<lparr>index_entries := index_entries w @ [?e],
                              disk := (disk w)(p := None, entry_filename ?e \<mapsto> b)\<rparr> \<and>
                      disk w p = Some b \<and> upsert c ?e = None \<and> Rename \<in> set trace \<and>
                      out = Completed (entry_filename ?e)"
                  using u \<open>disk w p = Some b\<close> by (auto simp: PIPELINE_STEPS_def)
                then show ?thesis by blast
              qed
            qed
          qed
        qed
      qed
    qed
  qed
qed


text \<open>
  C6. The steps of a task are performed in the order of the pipeline, and the steps that
  were performed are an initial part of the seven. Whichever step fails first, given the
  steps before it succeeded, is the last step performed: the task is Failed at that step
  and the files on disk are as they were; up to the index write nothing at all has
  changed, and a failed rename leaves the stored entry and the unrenamed file. The rename
  is performed only when the index write has stored the entry, so whenever the disk has
  changed the task is Completed and the index holds the entry for the new name. A file that
  cannot be opened or decoded fails at the first step, with disk and index untouched. Only
  when all seven steps succeed is the task Completed.
\<close>

theorem pipeline_aborts_on_failure:
  assumes "run_pipeline c p w = (out, trace, w')"
  shows "(\<exists>n. 0 < n \<and> n \<le> 7 \<and> trace = take n PIPELINE_STEPS) \<and>
         (\<forall>s r. out = Failed s r \<longrightarrow> last trace = s \<and> disk w' = disk w) \<and>
         (Rename \<in> set trace \<longrightarrow>
            (\<exists>e. index_entries w' = index_entries w @ [e] \<and> upsert c e = None)) \<and>
         (Rename \<notin> set trace \<longrightarrow> w' = w) \<and>
         (disk w' \<noteq> disk w \<longrightarrow>
            (\<exists>name e. out = Completed name \<and> entry_filename e = name \<and>
               index_entries w' = index_entries w @ [e] \<and> disk w' name = disk w p)) \<and>
         (disk w p = None \<longrightarrow>
            out = Failed Validate ''cannot open file'' \<and> trace = [Validate] \<and> w' = w) \<and>
         (\<forall>b r. disk w p = Some b \<and> decode_image c b = Inl r \<longrightarrow>
            out = Failed Validate r \<and> trace = [Validate] \<and> w' = w) \<and>
         (\<forall>b i r. disk w p = Some b \<and> decode_image c b = Inr i \<and> to_jpeg c i = Inl r \<longrightarrow>
            out = Failed Normalize r \<and> trace = [Validate, Normalize] \<and> w' = w) \<and>
         (\<forall>b i j r. disk w p = Some b \<and> decode_image c b = Inr i \<and> to_jpeg c i = Inr j \<and>
            caption c j = Inl r \<longrightarrow>
            out = Failed Caption r \<and> trace = [Validate, Normalize, Caption] \<and> w' = w) \<and>
         (\<forall>b i j t r. disk w p = Some b \<and> decode_image c b = Inr i \<and> to_jpeg c i = Inr j \<and>
            caption c j = Inr t \<and> derive_name c t = Inl r \<longrightarrow>
            out = Failed DeriveFilename r \<and>
            trace = [Validate, Normalize, Caption, DeriveFilename] \<and> w' = w) \<and>
         (\<forall>b i j t n r. disk w p = Some b \<and> decode_image c b = Inr i \<and> to_jpeg c i = Inr j \<and>
            caption c j = Inr t \<and> derive_name c t = Inr n \<and> embed c j t = Inl r \<longrightarrow>
            out = Failed Embed r \<and>
            trace = [Validate, Normalize, Caption, DeriveFilename, Embed] \<and> w' = w) \<and>
         (\<forall>b i j t n v r. disk w p = Some b \<and> decode_image c b = Inr i \<and> to_jpeg c i = Inr j \<and>
            caption c j = Inr t \<and> derive_name c t = Inr n \<and> embed c j t = Inr v \<and>
            upsert c \<lparr>entry_filename = final_name c w n, entry_caption = t, entry_vector = v,
                      entry_hash = content_hash c b\<rparr> = Some r \<longrightarrow>
            out = Failed IndexWrite r \<and>
            trace = [Validate, Normalize, Caption, DeriveFilename, Embed, IndexWrite] \<and>
            w' = w) \<and>
         (\<forall>b i j t n v r. disk w p = Some b \<and> decode_image c b = Inr i \<and> to_jpeg c i = Inr j \<and>
            caption c j = Inr t \<and> derive_name c t = Inr n \<and> embed c j t = Inr v \<and>
            upsert c \<lparr>entry_filename = final_name c w n, entry_caption = t, entry_vector = v,
                      entry_hash = content_hash c b\<rparr> = None \<and>
            fs_rename c p (final_name c w n) = Some r \<longrightarrow>
            out = Failed Rename r \<and> trace = PIPELINE_STEPS \<and>
            w' = w\<lparr>index_entries := index_entries w @
                    [\<lparr>entry_filename = final_name c w n, entry_caption = t, entry_vector = v,
                      entry_hash = content_hash c b\<rparr>]\<rparr>) \<and>
         (\<forall>b i j t n v. disk w p = Some b \<and> decode_image c b = Inr i \<and> to_jpeg c i = Inr j \<and>
            caption c j = Inr t \<and> derive_name c t = Inr n \<and> embed c j t = Inr v \<and>
            upsert c \<lparr>entry_filename = final_name c w n, entry_caption = t, entry_vector = v,
                      entry_hash = content_hash c b\<rparr> = None \<and>
            fs_rename c p (final_name c w n) = None \<longrightarrow>
            out = Completed (final_name c w n) \<and> trace = PIPELINE_STEPS \<and>
            w' = w\<lparr>index_entries := index_entries w @
                    [\<lparr>entry_filename = final_name c w n, entry_caption = t, entry_vector = v,
                      entry_hash = content_hash c b\<rparr>],
                   disk := (disk w)(p := None, final_name c w n \<mapsto> b)\<rparr>)"
proof -
  note cases = pipeline_cases [OF assms]
  have 1: "\<exists>n. 0 < n \<and> n \<le> 7 \<and> trace = take n PIPELINE_STEPS"
    using assms by (rule pipeline_prefix)
  have 2: "\<forall>s r. out = Failed s r \<longrightarrow> last trace = s \<and> disk w' = disk w"
  proof (intro allI impI)
    fix s r
    assume f: "out = Failed s r"
    with assms have "run_pipeline c p w = (Failed s r, trace, w')" by simp
    then have "last trace = s" by (rule pipeline_failed_last)
    moreover from cases f have "disk w' = disk w" by auto
    ultimately show "last trace = s \<and> disk w' = disk w" ..
  qed
  have 3: "Rename \<in> set trace \<longrightarrow>
            (\<exists>e. index_entries w' = index_entries w @ [e] \<and> upsert c e = None)"
    using cases by auto
  have 4: "Rename \<notin> set trace \<longrightarrow> w' = w"
    using cases by auto
  have 5: "disk w' \<noteq> disk w \<longrightarrow>
            (\<exists>name e. out = Completed name \<and> entry_filename e = name \<and>
               index_entries w' = index_entries w @ [e] \<and> disk w' name = disk w p)"
    using cases by auto
  have 6: "disk w p = None \<longrightarrow>
            out = Failed Validate ''cannot open file'' \<and> trace = [Validate] \<and> w' = w"
    using pipeline_missing [of w p c] assms by auto
  have 7: "\<forall>b r. disk w p = Some b \<and> decode_image c b = Inl r \<longrightarrow>
            out = Failed Validate r \<and> trace = [Validate] \<and> w' = w"
    using pipeline_fail_validate [of w p _ c] assms by auto
  have 8: "\<forall>b i r. disk w p = Some b \<and> decode_image c b = Inr i \<and> to_jpeg c i = Inl r \<longrightarrow>
            out = Failed Normalize r \<and> trace = [Validate, Normalize] \<and> w' = w"
    using pipeline_fail_normalize [of w p _ c] assms by auto
  have 9: "\<forall>b i j r. disk w p = Some b \<and> decode_image c b = Inr i \<and> to_jpeg c i = Inr j \<and>
            caption c j = Inl r \<longrightarrow>
            out = Failed Caption r \<and> trace = [Validate, Normalize, Caption] \<and> w' = w"
    using pipeline_fail_caption [of w p _ c] assms by auto
  have 10: "\<forall>b i j t r. disk w p = Some b \<and> decode_image c b = Inr i \<and> to_jpeg c i = Inr j \<and>
            caption c j = Inr t \<and> derive_name c t = Inl r \<longrightarrow>
            out = Failed DeriveFilename r \<and>
            trace = [Validate, Normalize, Caption, DeriveFilename] \<and> w' = w"
    using pipeline_fail_derive [of w p _ c] assms by auto
  have 11: "\<forall>b i j t n r. disk w p = Some b \<and> decode_image c b = Inr i \<and> to_jpeg c i = Inr j \<and>
            caption c j = Inr t \<and> derive_name c t = Inr n \<and> embed c j t = Inl r \<longrightarrow>
            out = Failed Embed r \<and>
            trace = [Validate, Normalize, Caption, DeriveFilename, Embed] \<and> w' = w"
    using pipeline_fail_embed [of w p _ c] assms by auto
  have 12: "\<forall>b i j t n v r. disk w p = Some b \<and> decode_image c b = Inr i \<and> to_jpeg c i = Inr j \<and>
            caption c j = Inr t \<and> derive_name c t = Inr n \<and> embed c j t = Inr v \<and>
            upsert c \<lparr>entry_filename = final_name c w n, entry_caption = t, entry_vector = v,
                      entry_hash = content_hash c b\<rparr> = Some r \<longrightarrow>
            out = Failed IndexWrite r \<and>
            trace = [Validate, Normalize, Caption, DeriveFilename, Embed, IndexWrite] \<and>
            w' = w"
    using pipeline_fail_index [of w p _ c] assms by auto
  have 13: "\<forall>b i j t n v r. disk w p = Some b \<and> decode_image c b = Inr i \<and> to_jpeg c i = Inr j \<and>
            caption c j = Inr t \<and> derive_name c t = Inr n \<and> embed c j t = Inr v \<and>
            upsert c \<lparr>entry_filename = final_name c w n, entry_caption = t, entry_vector = v,
                      entry_hash = content_hash c b\<rparr> = None \<and>
            fs_rename c p (final_name c w n) = Some r \<longrightarrow>
            out = Failed Rename r \<and> trace = PIPELINE_STEPS \<and>
            w' = w\<lparr>index_entries := index_entries w @
                    [\<lparr>entry_filename = final_name c w n, entry_caption = t, entry_vector = v,
                      entry_hash = content_hash c b\<rparr>]\<rparr>"
    using pipeline_fail_rename [of w p _ c] assms by auto
  have 14: "\<forall>b i j t n v. disk w p = Some b \<and> decode_image c b = Inr i \<and> to_jpeg c i = Inr j \<and>
            caption c j = Inr t \<and> derive_name c t = Inr n \<and> embed c j t = Inr v \<and>
            upsert c \<lparr>entry_filename = final_name c w n, entry_caption = t, entry_vector = v,
                      entry_hash = content_hash c b\<rparr> = None \<and>
            fs_rename c p (final_name c w n) = None \<longrightarrow>
            out = Completed (final_name c w n) \<and> trace = PIPELINE_STEPS \<and>
            w' = w\<lparr>index_entries := index_entries w @
                    [\<lparr>entry_filename = final_name c w n, entry_caption = t, entry_vector = v,
                      entry_hash = content_hash c b\<rparr>],
                   disk := (disk w)(p := None, final_name c w n \<mapsto> b)\<rparr>"
    using pipeline_completed [of w p _ c] assms by auto
  from 1 2 3 4 5 6 7 8 9 10 11 12 13 14 show ?thesis by (intro conjI)
qed


theorem pipeline_aborts_on_failure_witness:
  "(let c = \<lparr>decode_image = (\<lambda>b. if b = [] then Inl ''cannot identify image file'' else Inr b),
             to_jpeg = Inr, caption = (\<lambda>j. Inr ''a cat sitting on a laptop''),
             derive_name = (\<lambda>t. Inr ''cat_sitting_on_laptop.jpg''), token = ''_1'',
             embed = (\<lambda>j t. Inr [1, 0]), upsert = (\<lambda>e. None), fs_rename = (\<lambda>a b. None),
             content_hash = sum_list\<rparr>;
        w = \<lparr>disk = [''abc123.jpg'' \<mapsto> [255, 216], ''corrupt.png'' \<mapsto> []],
             index_entries = []\<rparr>;
        e = \<lparr>entry_filename = ''cat_sitting_on_laptop.jpg'',
             entry_caption = ''a cat sitting on a laptop'', entry_vector = [1, 0],
             entry_hash = 471\<rparr>
    in run_pipeline c ''corrupt.png'' w =
         (Failed Validate ''cannot identify image file'', [Validate], w) \<and>
       run_pipeline (c\<lparr>caption := (\<lambda>j. Inl ''model timeout'')\<rparr>) ''abc123.jpg'' w =
         (Failed Caption ''model timeout'', [Validate, Normalize, Caption], w) \<and>
       run_pipeline (c\<lparr>fs_rename := (\<lambda>a b. Some ''permission denied'')\<rparr>) ''abc123.jpg'' w =
         (Failed Rename ''permission denied'', PIPELINE_STEPS, w\<lparr>index_entries := [e]\<rparr>) \<and>
       run_pipeline c ''abc123.jpg'' w =
         (Completed ''cat_sitting_on_laptop.jpg'', PIPELINE_STEPS,
          w\<lparr>index_entries := [e],
            disk := (disk w)(''abc123.jpg'' := None,
                             ''cat_sitting_on_laptop.jpg'' \<mapsto> [255, 216])\<rparr>))"
proof -
  define c where
    "c = \<lparr>decode_image = (\<lambda>b :: bytes. if b = [] then Inl ''cannot identify image file'' else Inr b),
          to_jpeg = Inr, caption = (\<lambda>j. Inr ''a cat sitting on a laptop''),
          derive_name = (\<lambda>t. Inr ''cat_sitting_on_laptop.jpg''), token = ''_1'',
          embed = (\<lambda>j t. Inr [1, 0]), upsert = (\<lambda>e. None), fs_rename = (\<lambda>a b. None),
          content_hash = sum_list\<rparr>"
  define w where
    "w = \<lparr>disk = [''abc123.jpg'' \<mapsto> [255, 216], ''corrupt.png'' \<mapsto> []], index_entries = []\<rparr>"
  define e where
    "e = \<lparr>entry_filename = ''cat_sitting_on_laptop.jpg'',
          entry_caption = ''a cat sitting on a laptop'', entry_vector = [1, 0],
          entry_hash = 471\<rparr>"
  define c3 where "c3 = c\<lparr>caption := (\<lambda>j. Inl ''model timeout'')\<rparr>"
  define c7 where "c7 = c\<lparr>fs_rename := (\<lambda>a b. Some ''permission denied'')\<rparr>"
  have split: "run_pipeline k p w = (fst (run_pipeline k p w), fst (snd (run_pipeline k p w)),
                 snd (snd (run_pipeline k p w)))" for k p
    by simp
  have fn: "final_name c w ''cat_sitting_on_laptop.jpg'' = ''cat_sitting_on_laptop.jpg''"
    "final_name c7 w ''cat_sitting_on_laptop.jpg'' = ''cat_sitting_on_laptop.jpg''"
    by (simp_all add: final_name_def w_def)
  have h7: "disk w ''corrupt.png'' = Some [] \<and>
            decode_image c [] = Inl ''cannot identify image file''"
    by (simp add: w_def c_def)
  note t4 = pipeline_aborts_on_failure [THEN conjunct2, THEN conjunct2, THEN conjunct2,
      THEN conjunct2]
  note t6 = t4 [THEN conjunct2, THEN conjunct2]
  note t8 = t6 [THEN conjunct2, THEN conjunct2]
  note t12 = t8 [THEN conjunct2, THEN conjunct2, THEN conjunct2, THEN conjunct2]
  from t6 [THEN conjunct1, rule_format, OF split h7]
  have 1: "run_pipeline c ''corrupt.png'' w =
             (Failed Validate ''cannot identify image file'', [Validate], w)"
    by (metis prod.collapse)
  have h9: "disk w ''abc123.jpg'' = Some [255, 216] \<and> decode_image c3 [255, 216] = Inr [255, 216] \<and>
            to_jpeg c3 [255, 216] = Inr [255, 216] \<and> caption c3 [255, 216] = Inl ''model timeout''"
    by (simp add: w_def c_def c3_def)
  from t8 [THEN conjunct1, rule_format, OF split h9]
  have 2: "run_pipeline c3 ''abc123.jpg'' w =
             (Failed Caption ''model timeout'', [Validate, Normalize, Caption], w)"
    by (metis prod.collapse)
  have h13: "disk w ''abc123.jpg'' = Some [255, 216] \<and> decode_image c7 [255, 216] = Inr [255, 216] \<and>
            to_jpeg c7 [255, 216] = Inr [255, 216] \<and>
            caption c7 [255, 216] = Inr ''a cat sitting on a laptop'' \<and>
            derive_name c7 ''a cat sitting on a laptop'' = Inr ''cat_sitting_on_laptop.jpg'' \<and>
            embed c7 [255, 216] ''a cat sitting on a laptop'' = Inr [1, 0] \<and>
            upsert c7 \<lparr>entry_filename = final_name c7 w ''cat_sitting_on_laptop.jpg'',
                       entry_caption = ''a cat sitting on a laptop'', entry_vector = [1, 0],
                       entry_hash = content_hash c7 [255, 216]\<rparr> = None \<and>
            fs_rename c7 ''abc123.jpg'' (final_name c7 w ''cat_sitting_on_laptop.jpg'') =
              Some ''permission denied''"
    by (simp add: w_def c_def c7_def)
  have hash: "content_hash c7 [255, 216] = 471" "content_hash c [255, 216] = 471"
    by (simp_all add: c_def c7_def)
  have idx: "index_entries w = []" by (simp add: w_def)
  from t12 [THEN conjunct1, rule_format, OF split h13]
  have 3: "run_pipeline c7 ''abc123.jpg'' w =
             (Failed Rename ''permission denied'', PIPELINE_STEPS, w\<lparr>index_entries := [e]\<rparr>)"
    unfolding fn hash by (simp add: prod_eq_iff idx e_def)
  have h14: "disk w ''abc123.jpg'' = Some [255, 216] \<and> decode_image c [255, 216] = Inr [255, 216] \<and>
            to_jpeg c [255, 216] = Inr [255, 216] \<and>
            caption c [255, 216] = Inr ''a cat sitting on a laptop'' \<and>
            derive_name c ''a cat sitting on a laptop'' = Inr ''cat_sitting_on_laptop.jpg'' \<and>
            embed c [255, 216] ''a cat sitting on a laptop'' = Inr [1, 0] \<and>
            upsert c \<lparr>entry_filename = final_name c w ''cat_sitting_on_laptop.jpg'',
                      entry_caption = ''a cat sitting on a laptop'', entry_vector = [1, 0],
                      entry_hash = content_hash c [255, 216]\<rparr> = None \<and>
            fs_rename c ''abc123.jpg'' (final_name c w ''cat_sitting_on_laptop.jpg'') = None"
    by (simp add: w_def c_def)
  from t12 [THEN conjunct2, rule_format, OF split h14]
  have 4: "run_pipeline c ''abc123.jpg'' w =
         (Completed ''cat_sitting_on_laptop.jpg'', PIPELINE_STEPS,
          w\<lparr>index_entries := [e],
            disk := (disk w)(''abc123.jpg'' := None,
                             ''cat_sitting_on_laptop.jpg'' \<mapsto> [255, 216])\<rparr>)"
    unfolding fn hash by (simp add: prod_eq_iff idx e_def)
  from 1 2 3 4 show ?thesis
    unfolding Let_def c3_def c7_def c_def w_def e_def by (intro conjI)
qed

subsection \<open>Failures of collaborator calls and the worker\<close>

lemma worker_loop_single:
  "worker_loop c [p] w = ([fst (run_pipeline c p w)], snd (snd (run_pipeline c p w)))"
  by (simp split: prod.splits)

lemma worker_loop_Cons:
  "worker_loop c (p # ps) w =
     (fst (run_pipeline c p w) # fst (worker_loop c ps (snd (snd (run_pipeline c p w)))),
      snd (worker_loop c ps (snd (snd (run_pipeline c p w)))))"
  by (simp split: prod.splits)

lemma worker_loop_append:
  "worker_loop c (ps @ qs) w =
     (fst (worker_loop c ps w) @ fst (worker_loop c qs (snd (worker_loop c ps w))),
      snd (worker_loop c qs (snd (worker_loop c ps w))))"
proof (induction ps arbitrary: w)
  case Nil
  then show ?case by simp
next
  case (Cons p ps)
  show ?case
    unfolding append_Cons worker_loop_Cons [of c p] Cons.IH by simp
qed

lemma worker_loop_length: "length (fst (worker_loop c ps w)) = length ps"
proof (induction ps arbitrary: w)
  case Nil
  then show ?case by simp
next
  case (Cons p ps)
  show ?case unfolding worker_loop_Cons [of c p] by (simp add: Cons.IH)
qed

lemma worker_loop_skip:
  assumes "run_pipeline c p w = (out, trace, w)"
  shows "worker_loop c (p # ps) w = (out # fst (worker_loop c ps w), snd (worker_loop c ps w))"
  unfolding worker_loop_Cons [of c p] assms by simp


text \<open>
  C7. A failure of the Captioner, the Embedder or the Index call in the pipeline fails that
  step: the task is Failed at it, with disk and index as before. The failure stays with its
  task: the worker records this outcome and goes on, and the tasks after it are run exactly
  as if the failed task had not been there. In general the worker runs each task on what
  the tasks before it left, whatever their outcomes, and records one outcome for every
  task it takes.
\<close>

theorem collaborator_failure_is_local:
  "(\<forall>b i j r.
      disk w p = Some b \<and> decode_image c b = Inr i \<and> to_jpeg c i = Inr j \<and>
      caption c j = Inl r \<longrightarrow>
      run_pipeline c p w = (Failed Caption r, [Validate, Normalize, Caption], w) \<and>
      worker_loop c (p # ps) w =
        (Failed Caption r # fst (worker_loop c ps w), snd (worker_loop c ps w))) \<and>
   (\<forall>b i j t n r.
      disk w p = Some b \<and> decode_image c b = Inr i \<and> to_jpeg c i = Inr j \<and>
      caption c j = Inr t \<and> derive_name c t = Inr n \<and> embed c j t = Inl r \<longrightarrow>
      run_pipeline c p w =
        (Failed Embed r, [Validate, Normalize, Caption, DeriveFilename, Embed], w) \<and>
      worker_loop c (p # ps) w =
        (Failed Embed r # fst (worker_loop c ps w), snd (worker_loop c ps w))) \<and>
   (\<forall>b i j t n v r.
      disk w p = Some b \<and> decode_image c b = Inr i \<and> to_jpeg c i = Inr j \<and>
      caption c j = Inr t \<and> derive_name c t = Inr n \<and> embed c j t = Inr v \<and>
      upsert c \<lparr>entry_filename = final_name c w n, entry_caption = t, entry_vector = v,
                entry_hash = content_hash c b\<rparr> = Some r \<longrightarrow>
      run_pipeline c p w =
        (Failed IndexWrite r,
         [Validate, Normalize, Caption, DeriveFilename, Embed, IndexWrite], w) \<and>
      worker_loop c (p # ps) w =
        (Failed IndexWrite r # fst (worker_loop c ps w), snd (worker_loop c ps w))) \<and>
   worker_loop c (ps @ qs) w =
     (fst (worker_loop c ps w) @ fst (worker_loop c qs (snd (worker_loop c ps w))),
      snd (worker_loop c qs (snd (worker_loop c ps w)))) \<and>
   worker_loop c [p] w = ([fst (run_pipeline c p w)], snd (snd (run_pipeline c p w))) \<and>
   length (fst (worker_loop c ps w)) = length ps"
proof -
  have 1: "\<forall>b i j r.
      disk w p = Some b \<and> decode_image c b = Inr i \<and> to_jpeg c i = Inr j \<and>
      caption c j = Inl r \<longrightarrow>
      run_pipeline c p w = (Failed Caption r, [Validate, Normalize, Caption], w) \<and>
      worker_loop c (p # ps) w =
        (Failed Caption r # fst (worker_loop c ps w), snd (worker_loop c ps w))"
  proof (intro allI impI)
    fix b i j r
    assume "disk w p = Some b \<and> decode_image c b = Inr i \<and> to_jpeg c i = Inr j \<and>
            caption c j = Inl r"
    then have r: "run_pipeline c p w = (Failed Caption r, [Validate, Normalize, Caption], w)"
      by (simp add: pipeline_fail_caption)
    from r worker_loop_skip [OF r, of ps]
    show "run_pipeline c p w = (Failed Caption r, [Validate, Normalize, Caption], w) \<and>
          worker_loop c (p # ps) w =
            (Failed Caption r # fst (worker_loop c ps w), snd (worker_loop c ps w))" ..
  qed
  have 2: "\<forall>b i j t n r.
      disk w p = Some b \<and> decode_image c b = Inr i \<and> to_jpeg c i = Inr j \<and>
      caption c j = Inr t \<and> derive_name c t = Inr n \<and> embed c j t = Inl r \<longrightarrow>
      run_pipeline c p w =
        (Failed Embed r, [Validate, Normalize, Caption, DeriveFilename, Embed], w) \<and>
      worker_loop c (p # ps) w =
        (Failed Embed r # fst (worker_loop c ps w), snd (worker_loop c ps w))"
  proof (intro allI impI)
    fix b i j t n r
    assume "disk w p = Some b \<and> decode_image c b = Inr i \<and> to_jpeg c i = Inr j \<and>
            caption c j = Inr t \<and> derive_name c t = Inr n \<and> embed c j t = Inl r"
    then have r: "run_pipeline c p w =
        (Failed Embed r, [Validate, Normalize, Caption, DeriveFilename, Embed], w)"
      by (simp add: pipeline_fail_embed)
    from r worker_loop_skip [OF r, of ps]
    show "run_pipeline c p w =
            (Failed Embed r, [Validate, Normalize, Caption, DeriveFilename, Embed], w) \<and>
          worker_loop c (p # ps) w =
            (Failed Embed r # fst (worker_loop c ps w), snd (worker_loop c ps w))" ..
  qed
  have 3: "\<forall>b i j t n v r.
      disk w p = Some b \<and> decode_image c b = Inr i \<and> to_jpeg c i = Inr j \<and>
      caption c j = Inr t \<and> derive_name c t = Inr n \<and> embed c j t = Inr v \<and>
      upsert c \<lparr>entry_filename = final_name c w n, entry_caption = t, entry_vector = v,
                entry_hash = content_hash c b\<rparr> = Some r \<longrightarrow>
      run_pipeline c p w =
        (Failed IndexWrite r,
         [Validate, Normalize, Caption, DeriveFilename, Embed, IndexWrite], w) \<and>
      worker_loop c (p # ps) w =
        (Failed IndexWrite r # fst (worker_loop c ps w), snd (worker_loop c ps w))"
  proof (intro allI impI)
    fix b i j t n v r
    assume "disk w p = Some b \<and> decode_image c b = Inr i \<and> to_jpeg c i = Inr j \<and>
      caption c j = Inr t \<and> derive_name c t = Inr n \<and> embed c j t = Inr v \<and>
      upsert c \<lparr>entry_filename = final_name c w n, entry_caption = t, entry_vector = v,
                entry_hash = content_hash c b\<rparr> = Some r"
    then have r: "run_pipeline c p w =
        (Failed IndexWrite r,
         [Validate, Normalize, Caption, DeriveFilename, Embed, IndexWrite], w)"
      by (simp add: pipeline_fail_index)
    from r worker_loop_skip [OF r, of ps]
    show "run_pipeline c p w =
            (Failed IndexWrite r,
             [Validate, Normalize, Caption, DeriveFilename, Embed, IndexWrite], w) \<and>
          worker_loop c (p # ps) w =
            (Failed IndexWrite r # fst (worker_loop c ps w), snd (worker_loop c ps w))" ..
  qed
  from 1 2 3 worker_loop_append [of c ps qs w] worker_loop_single [of c p w]
    worker_loop_length [of c ps w]
  show ?thesis by (intro conjI)
qed

theorem collaborator_failure_is_local_witness:
  "(let c = \<lparr>decode_image = (\<lambda>b. if b = [] then Inl ''cannot identify image file'' else Inr b),
             to_jpeg = Inr, caption = (\<lambda>j. Inr ''two dogs''),
             derive_name = (\<lambda>t. Inr ''two_dogs.jpg''), token = ''_1'',
             embed = (\<lambda>j t. if j = [1] then Inl ''embedder unavailable'' else Inr [1, 0]),
             upsert = (\<lambda>e. None), fs_rename = (\<lambda>a b. None), content_hash = sum_list\<rparr>;
        w = \<lparr>disk = [''m.png'' \<mapsto> [1], ''n.png'' \<mapsto> [2]], index_entries = []\<rparr>
    in run_pipeline c ''m.png'' w =
         (Failed Embed ''embedder unavailable'',
          [Validate, Normalize, Caption, DeriveFilename, Embed], w) \<and>
       fst (worker_loop c [''n.png''] w) = [Completed ''two_dogs.jpg''] \<and>
       fst (worker_loop c [''m.png'', ''n.png''] w) =
         [Failed Embed ''embedder unavailable'', Completed ''two_dogs.jpg''] \<and>
       snd (worker_loop c [''m.png'', ''n.png''] w) = snd (worker_loop c [''n.png''] w))"
proof -
  define c where
    "c = \<lparr>decode_image = (\<lambda>b :: bytes. if b = [] then Inl ''cannot identify image file'' else Inr b),
          to_jpeg = Inr, caption = (\<lambda>j. Inr ''two dogs''),
          derive_name = (\<lambda>t. Inr ''two_dogs.jpg''), token = ''_1'',
          embed = (\<lambda>j t. if j = [1] then Inl ''embedder unavailable'' else Inr [1, 0]),
          upsert = (\<lambda>e. None), fs_rename = (\<lambda>a b. None), content_hash = sum_list\<rparr>"
  define w where
    "w = \<lparr>disk = [''m.png'' \<mapsto> [1], ''n.png'' \<mapsto> [2]], index_entries = []\<rparr>"
  note inst = collaborator_failure_is_local
    [where c = c and w = w and p = "''m.png''" and ps = "[''n.png'']"]
  have h: "disk w ''m.png'' = Some [1] \<and> decode_image c [1] = Inr [1] \<and>
           to_jpeg c [1] = Inr [1] \<and> caption c [1] = Inr ''two dogs'' \<and>
           derive_name c ''two dogs'' = Inr ''two_dogs.jpg'' \<and>
           embed c [1] ''two dogs'' = Inl ''embedder unavailable''"
    by (simp add: w_def c_def)
  note e = inst [THEN conjunct2, THEN conjunct1, rule_format, OF h]
  have n: "fst (run_pipeline c ''n.png'' w) = Completed ''two_dogs.jpg''"
    by (simp add: run_pipeline_def PIPELINE_STEPS_def no_data_def c_def w_def final_name_def)
  then have n1: "fst (worker_loop c [''n.png''] w) = [Completed ''two_dogs.jpg'']"
    by (simp only: worker_loop_single fst_conv)
  from e n1 have
    "run_pipeline c ''m.png'' w =
         (Failed Embed ''embedder unavailable'',
          [Validate, Normalize, Caption, DeriveFilename, Embed], w) \<and>
       fst (worker_loop c [''n.png''] w) = [Completed ''two_dogs.jpg''] \<and>
       fst (worker_loop c [''m.png'', ''n.png''] w) =
         [Failed Embed ''embedder unavailable'', Completed ''two_dogs.jpg''] \<and>
       snd (worker_loop c [''m.png'', ''n.png''] w) = snd (worker_loop c [''n.png''] w)"
    by (simp del: worker_loop.simps)
  then show ?thesis unfolding Let_def c_def w_def .
qed

subsection \<open>Invariants of the monitor\<close>

lemma run_append: "run c m (es @ fs) = run c (run c m es) fs"
  by (induction es arbitrary: m) simp_all

lemma run_snoc: "run c m (es @ [e]) = step c e (run c m es)"
  by (simp add: run_append)

lemma created_paths_append: "created_paths (es @ fs) = created_paths es @ created_paths fs"
  by (induction es rule: created_paths.induct) simp_all

lemma length_removeAll_distinct:
  "distinct xs \<Longrightarrow> x \<in> set xs \<Longrightarrow> Suc (length (removeAll x xs)) = length xs"
  by (induction xs) auto

lemma enqueue_fields:
  "debouncing (snd (enqueue p m)) = debouncing m"
  "running (snd (enqueue p m)) = running m"
  "outside (snd (enqueue p m)) = outside m"
  "max_queue_size (snd (enqueue p m)) = max_queue_size m"
  "max_worker_threads (snd (enqueue p m)) = max_worker_threads m"
  by (simp_all add: enqueue_def)

lemma limits_step:
  "max_queue_size (step c e m) = max_queue_size m \<and>
   max_worker_threads (step c e m) = max_worker_threads m"
  by (cases e)
     (auto simp: on_created_def on_modified_def on_stable_def tryAdmit_def enqueue_def
       dequeue_def finish_def split: list.splits prod.splits)

lemma limits_run:
  "max_queue_size (run c m es) = max_queue_size m \<and>
   max_worker_threads (run c m es) = max_worker_threads m"
  by (induction es arbitrary: m) (simp_all add: limits_step)

lemma wf_init: "wf (init C W w)"
  by (simp add: wf_def init_def in_flight_def queue_depth_def)

lemma wf_on_created: "wf m \<Longrightarrow> wf (on_created p m)"
  by (auto simp: wf_def on_created_def in_flight_def queue_depth_def)

lemma wf_on_stable: "wf m \<Longrightarrow> wf (on_stable c p m)"
  by (auto simp: wf_def on_stable_def tryAdmit_def enqueue_def in_flight_def queue_depth_def
      distinct_removeAll)

lemma wf_dequeue: "wf m \<Longrightarrow> wf (snd (dequeue m))"
  by (auto simp: wf_def dequeue_def in_flight_def queue_depth_def split: list.splits)

lemma wf_finish: "wf m \<Longrightarrow> wf (finish c p m)"
proof (cases "p \<in> set (running m)")
  case False
  then show "wf m \<Longrightarrow> wf (finish c p m)" by (simp add: finish_def)
next
  case True
  assume w: "wf m"
  then have d: "distinct (running m)" by (simp add: wf_def in_flight_def)
  from length_removeAll_distinct [OF d True] w True show "wf (finish c p m)"
    by (auto simp: wf_def finish_def in_flight_def queue_depth_def distinct_removeAll
        split: prod.splits)
qed

lemma wf_step: "wf m \<Longrightarrow> wf (step c e m)"
  by (cases e) (simp_all add: wf_on_created on_modified_def wf_on_stable wf_dequeue wf_finish)

lemma wf_run: "wf m \<Longrightarrow> wf (run c m es)"
  by (induction es arbitrary: m) (simp_all add: wf_step)

lemma wf_reachable: "wf (run c (init C W w) es)"
  by (simp add: wf_run wf_init)

lemma image_names:
  "is_image_file ''a.jpg''" "is_image_file ''b.png''" "is_image_file ''c.gif''"
  "is_image_file ''old.jpg''" "is_image_file ''copy.jpg''" "\<not> is_image_file ''notes.txt''"
  by code_simp+

lemmas monitor_defs =
  init_def on_created_def on_modified_def on_stable_def tryAdmit_def index_exists_def
  enqueue_def dequeue_def finish_def in_flight_def queue_depth_def

subsection \<open>Bounded queue\<close>

text \<open>
  C1. Whatever events the monitor has handled (files created and modified, stable signals,
  workers taking and ending tasks), the Bounded Queue holds at most its capacity \<open>C\<close>,
  which is 100 when \<^verbatim>\<open>MAX_QUEUE_SIZE\<close> is not set. An \<open>enqueue\<close> at depth \<open>C\<close> returns
  \<open>Rejected QueueFull\<close>; the state it returns differs from the one before only in the
  count of dropped files, which is one higher: nothing was taken out to make room. Below
  the capacity the task is accepted at the end of the queue.
\<close>

theorem bounded_queue_capacity:
  "queue_depth (run c (init C W w) evs) \<le> C \<and>
   max_queue_size (run c (init C W w) evs) = C \<and>
   max_queue_size (start \<lparr>MAX_QUEUE_SIZE = None, MAX_WORKER_THREADS = k\<rparr> w) = 100 \<and>
   (queue_depth m = max_queue_size m \<longrightarrow>
      enqueue p m =
        (Rejected QueueFull, m\<lparr>metrics := (metrics m)\<lparr>dropped := dropped (metrics m) + 1\<rparr>\<rparr>)) \<and>
   (queue_depth m < max_queue_size m \<longrightarrow>
      enqueue p m =
        (Accepted,
         m\<lparr>queued := queued m @ [p],
           metrics := (metrics m)\<lparr>admitted := admitted (metrics m) + 1\<rparr>\<rparr>))"
proof -
  have mq: "max_queue_size (run c (init C W w) evs) = C"
    by (simp add: limits_run init_def)
  from wf_reachable [of c C W w evs] mq have "queue_depth (run c (init C W w) evs) \<le> C"
    by (simp add: wf_def)
  moreover have "max_queue_size (start \<lparr>MAX_QUEUE_SIZE = None, MAX_WORKER_THREADS = k\<rparr> w) = 100"
    by (simp add: start_def init_def)
  ultimately show ?thesis using mq by (simp add: enqueue_def)
qed


theorem bounded_queue_capacity_witness:
  "(let c = \<lparr>decode_image = Inr, to_jpeg = Inr, caption = (\<lambda>j. Inr ''a meme''),
             derive_name = (\<lambda>t. Inr ''a_meme.jpg''), token = ''_1'',
             embed = (\<lambda>j t. Inr [1]), upsert = (\<lambda>e. None), fs_rename = (\<lambda>a b. None),
             content_hash = sum_list\<rparr>;
        w = \<lparr>disk = Map.empty, index_entries = []\<rparr>;
        m = run c (init 1 4 w) [Created ''a.jpg'', Stable ''a.jpg'']
    in queue_depth
         (run c (init 1 4 w)
            [Created ''a.jpg'', Stable ''a.jpg'', Created ''b.png'', Stable ''b.png'', Dequeue,
             Created ''c.gif'', Stable ''c.gif'']) \<le> 1 \<and>
       queue_depth m = 1 \<and> max_queue_size m = 1 \<and>
       enqueue ''b.png'' m =
         (Rejected QueueFull,
          \<lparr>max_queue_size = 1, max_worker_threads = 4, debouncing = [], queued = [''a.jpg''],
           running = [], outside = w,
           metrics = \<lparr>admitted = 1, completed = 0, failed = 0, dropped = 1, skipped = 0\<rparr>\<rparr>))"
proof -
  define c where
    "c = \<lparr>decode_image = (Inr :: bytes \<Rightarrow> reason + image), to_jpeg = Inr,
          caption = (\<lambda>j. Inr ''a meme''),
          derive_name = (\<lambda>t. Inr ''a_meme.jpg''), token = ''_1'',
          embed = (\<lambda>j t. Inr [1]), upsert = (\<lambda>e. None), fs_rename = (\<lambda>a b. None),
          content_hash = sum_list\<rparr>"
  define w where "w = \<lparr>disk = Map.empty, index_entries = []\<rparr>"
  define m where "m = run c (init 1 4 w) [Created ''a.jpg'', Stable ''a.jpg'']"
  have v: "m = \<lparr>max_queue_size = 1, max_worker_threads = 4, debouncing = [],
                 queued = [''a.jpg''], running = [], outside = w,
                 metrics = \<lparr>admitted = 1, completed = 0, failed = 0, dropped = 0, skipped = 0\<rparr>\<rparr>"
    by (simp add: m_def monitor_defs image_names w_def)
  have d: "queue_depth m = max_queue_size m"
    unfolding v by (simp add: queue_depth_def)
  from bounded_queue_capacity [where c = c and C = 1 and W = 4 and w = w and m = m
      and p = "''b.png''"
      and evs = "[Created ''a.jpg'', Stable ''a.jpg'', Created ''b.png'', Stable ''b.png'',
                  Dequeue, Created ''c.gif'', Stable ''c.gif'']"] d
  have "queue_depth
         (run c (init 1 4 w)
            [Created ''a.jpg'', Stable ''a.jpg'', Created ''b.png'', Stable ''b.png'', Dequeue,
             Created ''c.gif'', Stable ''c.gif'']) \<le> 1"
    and "enqueue ''b.png'' m =
        (Rejected QueueFull, m\<lparr>metrics := (metrics m)\<lparr>dropped := dropped (metrics m) + 1\<rparr>\<rparr>)"
    by simp_all
  then have "queue_depth
         (run c (init 1 4 w)
            [Created ''a.jpg'', Stable ''a.jpg'', Created ''b.png'', Stable ''b.png'', Dequeue,
             Created ''c.gif'', Stable ''c.gif'']) \<le> 1 \<and>
       queue_depth m = 1 \<and> max_queue_size m = 1 \<and>
       enqueue ''b.png'' m =
         (Rejected QueueFull,
          \<lparr>max_queue_size = 1, max_worker_threads = 4, debouncing = [], queued = [''a.jpg''],
           running = [], outside = w,
           metrics = \<lparr>admitted = 1, completed = 0, failed = 0, dropped = 1, skipped = 0\<rparr>\<rparr>)"
    unfolding v by (simp add: queue_depth_def)
  then show ?thesis unfolding Let_def m_def c_def w_def .
qed

subsection \<open>Debouncer\<close>

lemma fire_due_none:
  "p \<notin> fst ` set xs \<Longrightarrow> filter (\<lambda>s. snd s = p) (map (\<lambda>(q, t). (t, q)) (filter P xs)) = []"
  by (induction xs) (auto split: prod.splits)

lemma fire_due_signals:
  "distinct (map fst xs) \<Longrightarrow>
   filter (\<lambda>s. snd s = p) (map (\<lambda>(q, t). (t, q)) (filter (\<lambda>(q, t). t \<le> now) xs)) =
     (case map_of xs p of None \<Rightarrow> [] | Some dl \<Rightarrow> if dl \<le> now then [(dl, p)] else [])"
proof (induction xs)
  case Nil
  then show ?case by simp
next
  case (Cons x xs)
  obtain q t where x: "x = (q, t)" by (cases x)
  show ?case
  proof (cases "q = p")
    case True
    with Cons.prems x have "p \<notin> fst ` set xs" by simp
    from fire_due_none [OF this] True x show ?thesis by simp
  next
    case False
    with Cons x show ?thesis by simp
  qed
qed

lemma map_of_filter_due:
  "distinct (map fst xs) \<Longrightarrow>
   map_of (filter (\<lambda>(q, t). \<not> t \<le> now) xs) p =
     (case map_of xs p of None \<Rightarrow> None | Some dl \<Rightarrow> if dl \<le> now then None else Some dl)"
proof (induction xs)
  case Nil
  then show ?case by simp
next
  case (Cons x xs)
  obtain q t where x: "x = (q, t)" by (cases x)
  show ?case
  proof (cases "q = p")
    case True
    with Cons.prems x have "p \<notin> fst ` set xs" by simp
    then have "map_of xs p = None" by (simp add: map_of_eq_None_iff)
    with Cons True x show ?thesis by simp
  next
    case False
    with Cons x show ?thesis by simp
  qed
qed

lemma distinct_filter_keys: "distinct (map fst xs) \<Longrightarrow> distinct (map fst (filter P xs))"
  by (induction xs) auto

lemma map_of_onEvent:
  "map_of (timers (onEvent now p d)) q =
     (if q = p then Some (now + interval d) else map_of (timers d) q)"
proof -
  have "q \<noteq> p \<Longrightarrow> map_of (filter (\<lambda>(r, t). r \<noteq> p) xs) q = map_of xs q"
    for xs :: "(path \<times> time) list"
    by (induction xs) auto
  from this [of "timers d"] show ?thesis by (simp add: onEvent_def)
qed

lemma distinct_onEvent:
  "distinct (map fst (timers d)) \<Longrightarrow> distinct (map fst (timers (onEvent now p d)))"
  by (auto simp: onEvent_def distinct_filter_keys)


lemma interval_onEvent: "interval (onEvent now p d) = interval d"
  by (simp add: onEvent_def)

lemma fire_due_simps:
  "interval (snd (fire_due now d)) = interval d"
  "timers (snd (fire_due now d)) = filter (\<lambda>(q, t). \<not> t \<le> now) (timers d)"
  "fst (fire_due now d) = map (\<lambda>(q, t). (t, q)) (filter (\<lambda>(q, t). t \<le> now) (timers d))"
  by (simp_all add: fire_due_def)

lemma stable_times_early:
  assumes "dl \<le> tend" and "\<forall>t \<in> set ts. dl \<le> t"
  shows "stable_times T (Some dl) ts tend = dl # stable_times T None ts tend"
  using assms by (cases ts) simp_all

text \<open>The signals of one path depend on the events of that path alone.\<close>

lemma deliver_path:
  assumes "distinct (map fst (timers d))" and "sorted (map fst evs)"
    and "\<forall>t \<in> set (map fst evs). t \<le> tend"
  shows "filter (\<lambda>s. snd s = p)
           (fst (deliver d evs) @ fst (fire_due tend (snd (deliver d evs)))) =
         map (\<lambda>t. (t, p))
           (stable_times (interval d) (map_of (timers d) p)
              (map fst (filter (\<lambda>e. snd e = p) evs)) tend)"
  using assms
proof (induction evs arbitrary: d)
  case Nil
  from fire_due_signals [OF Nil(1), of p tend] show ?case
    by (simp add: fire_due_simps split: option.splits)
next
  case (Cons ev evs)
  obtain now q where ev: "ev = (now, q)" by (cases ev)
  let ?d1 = "snd (fire_due now d)"
  let ?d2 = "onEvent now q ?d1"
  from Cons.prems(1) have d1: "distinct (map fst (timers ?d1))"
    by (simp add: fire_due_simps distinct_filter_keys)
  then have d2: "distinct (map fst (timers ?d2))" by (rule distinct_onEvent)
  from Cons.prems(2) have s: "sorted (map fst evs)" and le: "\<forall>t \<in> set (map fst evs). now \<le> t"
    using ev by auto
  from Cons.prems(3) have b: "\<forall>t \<in> set (map fst evs). t \<le> tend" and nb: "now \<le> tend"
    using ev by auto
  note IH = Cons.IH [OF d2 s b]
  have i2: "interval ?d2 = interval d" by (simp add: interval_onEvent fire_due_simps)
  have m1: "map_of (timers ?d1) p =
      (case map_of (timers d) p of None \<Rightarrow> None | Some dl \<Rightarrow> if dl \<le> now then None else Some dl)"
    using map_of_filter_due [OF Cons.prems(1), of now p] by (simp add: fire_due_simps)
  have f1: "filter (\<lambda>s. snd s = p) (fst (fire_due now d)) =
      (case map_of (timers d) p of None \<Rightarrow> [] | Some dl \<Rightarrow> if dl \<le> now then [(dl, p)] else [])"
    using fire_due_signals [OF Cons.prems(1), of p now] by (simp add: fire_due_simps)
  have split: "fst (deliver d (ev # evs)) @ fst (fire_due tend (snd (deliver d (ev # evs)))) =
      fst (fire_due now d) @ (fst (deliver ?d2 evs) @ fst (fire_due tend (snd (deliver ?d2 evs))))"
    by (simp add: ev split: prod.splits)
  show ?case
  proof (cases "q = p")
    case True
    have m2: "map_of (timers ?d2) p = Some (now + interval d)"
      by (simp add: map_of_onEvent True fire_due_simps)
    show ?thesis
      unfolding split using IH f1 m2 i2 True ev by (simp split: option.splits)
  next
    case False
    have m2: "map_of (timers ?d2) p = map_of (timers ?d1) p"
      using False by (auto simp: map_of_onEvent)
    show ?thesis
    proof (cases "map_of (timers d) p")
      case None
      with IH f1 m1 m2 i2 False ev show ?thesis unfolding split by simp
    next
      case (Some dl)
      show ?thesis
      proof (cases "dl \<le> now")
        case True
        from le have "\<forall>t \<in> set (map fst (filter (\<lambda>e. snd e = p) evs)). dl \<le> t"
          using True by auto
        from stable_times_early [OF _ this, of tend "interval d"] True nb
        have "stable_times (interval d) (Some dl) (map fst (filter (\<lambda>e. snd e = p) evs)) tend =
              dl # stable_times (interval d) None (map fst (filter (\<lambda>e. snd e = p) evs)) tend"
          by simp
        with IH f1 m1 m2 i2 False ev Some True show ?thesis unfolding split by simp
      next
        case F: False
        with IH f1 m1 m2 i2 False ev Some show ?thesis unfolding split by simp
      qed
    qed
  qed
qed


lemma stable_times_after_last:
  assumes "0 < T" and "ts \<noteq> []" and "sorted ts" and "last ts + T \<le> tend"
  shows "filter (\<lambda>x. last ts < x) (stable_times T a ts tend) = [last ts + T]"
  using assms(2,3,4)
proof (induction ts arbitrary: a rule: list_nonempty_induct)
  case (single t)
  with assms(1) show ?case by (simp split: option.splits)
next
  case (cons t ts)
  from cons.prems have s: "sorted ts" and l: "last ts + T \<le> tend" and le: "t \<le> last ts"
    using cons.hyps by auto
  from cons.IH [OF s l, of "Some (t + T)"] cons.hyps le show ?case
    by (auto split: option.splits)
qed

lemma stable_times_rearmed:
  assumes "ts \<noteq> []" and "successively (\<lambda>a b. b < a + T) ts" and "last ts + T \<le> tend"
    and "case a of None \<Rightarrow> True | Some dl \<Rightarrow> hd ts < dl"
  shows "stable_times T a ts tend = [last ts + T]"
  using assms
proof (induction ts arbitrary: a rule: list_nonempty_induct)
  case (single t)
  then show ?case by (auto split: option.splits)
next
  case (cons t ts)
  from cons.prems(1) cons.hyps have h: "hd ts < t + T" and s: "successively (\<lambda>a b. b < a + T) ts"
    by (simp_all add: successively_Cons)
  from cons.prems(2) cons.hyps have l: "last ts + T \<le> tend" by simp
  from h have c: "case Some (t + T) of None \<Rightarrow> True | Some dl \<Rightarrow> hd ts < dl" by simp
  from cons.IH [OF s l c] cons.prems(3) cons.hyps show ?case
    by (auto split: option.splits)
qed

lemma stable_signals_path:
  assumes "sorted (map fst evs)" and "\<forall>t \<in> set (map fst evs). t \<le> tend"
  shows "filter (\<lambda>s. snd s = p) (stable_signals T evs tend) =
         map (\<lambda>t. (t, p)) (stable_times T None (map fst (filter (\<lambda>e. snd e = p) evs)) tend)"
proof -
  let ?d = "\<lparr>interval = T, timers = []\<rparr>"
  have "stable_signals T evs tend =
        fst (deliver ?d evs) @ fst (fire_due tend (snd (deliver ?d evs)))"
    by (simp add: stable_signals_def split: prod.splits)
  with deliver_path [of ?d evs tend p, OF _ assms] show ?thesis by simp
qed

text \<open>
  C4. Take any events, in the order of their times, among them at least one write to the
  path \<open>p\<close>, and look at the signals emitted up to a time at least one interval \<open>T\<close>
  after the last write to \<open>p\<close>. After that last write exactly one stable signal is emitted
  for \<open>p\<close>, at the moment the interval has elapsed. If every write to \<open>p\<close> comes less
  than \<open>T\<close> after the one before (such as five rewrites within the interval), this is
  the only stable signal for \<open>p\<close> altogether.
\<close>

theorem debounce_one_stable_signal:
  assumes "0 < T" and "sorted (map fst evs)" and "\<forall>t \<in> set (map fst evs). t \<le> tend"
    and "ts = map fst (filter (\<lambda>e. snd e = p) evs)" and "ts \<noteq> []"
    and "last ts + T \<le> tend"
  shows "filter (\<lambda>s. snd s = p \<and> last ts < fst s) (stable_signals T evs tend) =
           [(last ts + T, p)] \<and>
         (successively (\<lambda>a b. b < a + T) ts \<longrightarrow>
            filter (\<lambda>s. snd s = p) (stable_signals T evs tend) = [(last ts + T, p)])"
proof -
  from assms(2,4) have s: "sorted ts" by (simp add: sorted_filter)
  note path = stable_signals_path [OF assms(2,3), of p T]
  have "filter (\<lambda>s. snd s = p \<and> last ts < fst s) (stable_signals T evs tend) =
        filter (\<lambda>s. last ts < fst s) (filter (\<lambda>s. snd s = p) (stable_signals T evs tend))"
    by (simp add: conj_commute)
  also have "\<dots> = map (\<lambda>t. (t, p)) (filter (\<lambda>x. last ts < x) (stable_times T None ts tend))"
    unfolding path assms(4) by (simp add: filter_map comp_def)
  also have "\<dots> = [(last ts + T, p)]"
    using stable_times_after_last [OF assms(1,5) s assms(6), of None] by simp
  finally have a: "filter (\<lambda>s. snd s = p \<and> last ts < fst s) (stable_signals T evs tend) =
           [(last ts + T, p)]" .
  have b: "successively (\<lambda>a b. b < a + T) ts \<longrightarrow>
            filter (\<lambda>s. snd s = p) (stable_signals T evs tend) = [(last ts + T, p)]"
  proof
    assume g: "successively (\<lambda>a b. b < a + T) ts"
    from stable_times_rearmed [OF assms(5) g assms(6), of None]
    show "filter (\<lambda>s. snd s = p) (stable_signals T evs tend) = [(last ts + T, p)]"
      unfolding path assms(4) [symmetric] by simp
  qed
  from a b show ?thesis ..
qed


theorem debounce_one_stable_signal_witness:
  "filter (\<lambda>s. snd s = ''a.jpg'')
     (stable_signals DEBOUNCE_INTERVAL
        [(0, ''a.jpg''), (200, ''a.jpg''), (300, ''b.png''), (400, ''a.jpg''),
         (600, ''a.jpg''), (800, ''a.jpg'')] 5000) = [(1800, ''a.jpg'')] \<and>
   filter (\<lambda>s. snd s = ''a.jpg'' \<and> 2500 < fst s)
     (stable_signals DEBOUNCE_INTERVAL
        [(0, ''a.jpg''), (200, ''a.jpg''), (1700, ''a.jpg''), (2500, ''a.jpg'')] 5000) =
     [(3500, ''a.jpg'')]"
proof -
  define evs :: "(time \<times> path) list" where
    "evs = [(0, ''a.jpg''), (200, ''a.jpg''), (300, ''b.png''), (400, ''a.jpg''),
            (600, ''a.jpg''), (800, ''a.jpg'')]"
  define evs' :: "(time \<times> path) list" where
    "evs' = [(0, ''a.jpg''), (200, ''a.jpg''), (1700, ''a.jpg''), (2500, ''a.jpg'')]"
  have T: "0 < DEBOUNCE_INTERVAL" by (simp add: DEBOUNCE_INTERVAL_def)
  have s: "sorted (map fst evs)" and b: "\<forall>t \<in> set (map fst evs). t \<le> 5000"
    and ts: "[0, 200, 400, 600, 800] = map fst (filter (\<lambda>e. snd e = ''a.jpg'') evs)"
    by (simp_all add: evs_def)
  have n: "[0, 200, 400, 600, 800] \<noteq> ([] :: time list)"
    and l: "last [0, 200, 400, 600, 800] + DEBOUNCE_INTERVAL \<le> 5000"
    and g: "successively (\<lambda>a b. b < a + DEBOUNCE_INTERVAL) [0, 200, 400, 600, 800]"
    by (simp_all add: DEBOUNCE_INTERVAL_def)
  from debounce_one_stable_signal [OF T s b ts n l] g
  have "filter (\<lambda>s. snd s = ''a.jpg'') (stable_signals DEBOUNCE_INTERVAL evs 5000) =
        [(last [0, 200, 400, 600, 800] + DEBOUNCE_INTERVAL, ''a.jpg'')]"
    by blast
  then have 1: "filter (\<lambda>s. snd s = ''a.jpg'') (stable_signals DEBOUNCE_INTERVAL evs 5000) =
        [(1800, ''a.jpg'')]"
    by (simp add: DEBOUNCE_INTERVAL_def)
  have s': "sorted (map fst evs')" and b': "\<forall>t \<in> set (map fst evs'). t \<le> 5000"
    and ts': "[0, 200, 1700, 2500] = map fst (filter (\<lambda>e. snd e = ''a.jpg'') evs')"
    by (simp_all add: evs'_def)
  have n': "[0, 200, 1700, 2500] \<noteq> ([] :: time list)"
    and l': "last [0, 200, 1700, 2500] + DEBOUNCE_INTERVAL \<le> 5000"
    by (simp_all add: DEBOUNCE_INTERVAL_def)
  from debounce_one_stable_signal [OF T s' b' ts' n' l']
  have "filter (\<lambda>s. snd s = ''a.jpg'' \<and> last [0, 200, 1700, 2500] < fst s)
          (stable_signals DEBOUNCE_INTERVAL evs' 5000) =
        [(last [0, 200, 1700, 2500] + DEBOUNCE_INTERVAL, ''a.jpg'')]"
    by blast
  then have 2: "filter (\<lambda>s. snd s = ''a.jpg'' \<and> 2500 < fst s)
          (stable_signals DEBOUNCE_INTERVAL evs' 5000) = [(3500, ''a.jpg'')]"
    by (simp add: DEBOUNCE_INTERVAL_def)
  from 1 2 show ?thesis unfolding evs_def evs'_def ..
qed

end
